theory Spec2Isabelle
  imports Main "HOL-Library.Word"
begin

section \<open>Byte strings and the scratch buffer (buffer.go)\<close>

text \<open>
  A Go \<open>string\<close> and a \<open>[]byte\<close> are sequences of bytes; both are modelled as
  \<^typ>\<open>string\<close> (a list of 8-bit characters). The buffer is a byte slice that only
  ever grows by appending; the pool it comes from hands out an empty buffer, so
  \<open>newBuffer\<close> is the empty list and \<open>Free\<close> has no observable effect on a single call.
\<close>

type_synonym buffer = string

definition newBuffer :: buffer where
  "newBuffer = []"

definition WriteChar :: "buffer \<Rightarrow> char \<Rightarrow> buffer" where
  "WriteChar b c = b @ [c]"

definition WriteString :: "buffer \<Rightarrow> string \<Rightarrow> buffer" where
  "WriteString b str = b @ str"

definition WriteStringIf :: "buffer \<Rightarrow> bool \<Rightarrow> string \<Rightarrow> buffer" where
  "WriteStringIf b ok str = (if ok then WriteString b str else b)"

section \<open>ANSI modes (handler.go, lines 69-79)\<close>

definition ESC :: char where
  "ESC = CHR 0x1B"

definition ansiReset :: string where
  "ansiReset = ESC # ''[0m''"

definition ansiFaint :: string where
  "ansiFaint = ESC # ''[2m''"

definition ansiBrightMagentaFaint :: string where
  "ansiBrightMagentaFaint = ESC # ''[95;2m''"

definition ansiResetFaint :: string where
  "ansiResetFaint = ESC # ''[22m''"

definition ansiBrightRed :: string where
  "ansiBrightRed = ESC # ''[91m''"

definition ansiBrightRedFaint :: string where
  "ansiBrightRedFaint = ESC # ''[91;2m''"

definition ansiBrightGreen :: string where
  "ansiBrightGreen = ESC # ''[92m''"

definition ansiBrightYellow :: string where
  "ansiBrightYellow = ESC # ''[93m''"

section \<open>The parts of the Go standard library the handler calls\<close>

subsection \<open>strconv: integers and booleans in base 10\<close>

definition digit :: "nat \<Rightarrow> char" where
  "digit n = ''0123456789abcdef'' ! n"

fun digits10 :: "nat \<Rightarrow> string" where
  "digits10 n = (if n < 10 then [digit n] else digits10 (n div 10) @ [digit (n mod 10)])"

declare digits10.simps [simp del]

text \<open>\<open>strconv.AppendInt(buf, i, 10)\<close>: a minus sign for a negative number, then the
  digits of the magnitude.\<close>

definition AppendInt :: "buffer \<Rightarrow> int \<Rightarrow> buffer" where
  "AppendInt b i = (if i < 0 then b @ CHR ''-'' # digits10 (nat (- i)) else b @ digits10 (nat i))"

definition AppendUint :: "buffer \<Rightarrow> nat \<Rightarrow> buffer" where
  "AppendUint b n = b @ digits10 n"

definition Itoa :: "int \<Rightarrow> string" where
  "Itoa i = AppendInt [] i"

definition AppendBool :: "buffer \<Rightarrow> bool \<Rightarrow> buffer" where
  "AppendBool b v = (if v then b @ ''true'' else b @ ''false'')"

subsection \<open>unicode/utf8: runes of a byte string\<close>

text \<open>Runes are code points, modelled as natural numbers. \<open>DecodeRune\<close> is
  \<open>utf8.DecodeRuneInString\<close>: the rune at the front of the string and its width in
  bytes; an invalid or truncated encoding decodes to \<open>RuneError\<close> with width 1. The masks
  and shifts of the Go code are written as \<open>mod\<close> and multiplication.\<close>

definition RuneError :: nat where
  "RuneError = 0xFFFD"

definition RuneSelf :: nat where
  "RuneSelf = 0x80"

definition MaxRune :: nat where
  "MaxRune = 0x10FFFF"

fun DecodeRune :: "string \<Rightarrow> nat \<times> nat" where
  "DecodeRune [] = (RuneError, 0)"
| "DecodeRune (c0 # cs) =
    (let s0 = (of_char c0 :: nat) in
     if s0 < 0x80 then (s0, 1)
     else if s0 < 0xC2 \<or> 0xF4 < s0 then (RuneError, 1)
     else
       let sz = (if s0 < 0xE0 then 2 else if s0 < 0xF0 then 3 else 4 :: nat);
           lo = (if s0 = 0xE0 then 0xA0 else if s0 = 0xF0 then 0x90 else 0x80 :: nat);
           hi = (if s0 = 0xED then 0x9F else if s0 = 0xF4 then 0x8F else 0xBF :: nat)
       in
       if length (c0 # cs) < sz then (RuneError, 1)
       else
         let s1 = (of_char (cs ! 0) :: nat) in
         if s1 < lo \<or> hi < s1 then (RuneError, 1)
         else if sz \<le> 2 then ((s0 mod 32) * 64 + s1 mod 64, 2)
         else
           let s2 = (of_char (cs ! 1) :: nat) in
           if s2 < 0x80 \<or> 0xBF < s2 then (RuneError, 1)
           else if sz \<le> 3 then ((s0 mod 16) * 4096 + (s1 mod 64) * 64 + s2 mod 64, 3)
           else
             let s3 = (of_char (cs ! 2) :: nat) in
             if s3 < 0x80 \<or> 0xBF < s3 then (RuneError, 1)
             else ((s0 mod 8) * 262144 + (s1 mod 64) * 4096 + (s2 mod 64) * 64 + s3 mod 64, 4))"

lemma DecodeRune_width: "s \<noteq> [] \<Longrightarrow> 1 \<le> snd (DecodeRune s) \<and> snd (DecodeRune s) \<le> 4"
  by (cases s) (simp_all add: Let_def)

declare DecodeRune.simps(2) [simp del]

definition ValidRune :: "nat \<Rightarrow> bool" where
  "ValidRune r = (r < 0xD800 \<or> (0xDFFF < r \<and> r \<le> MaxRune))"

text \<open>\<open>utf8.AppendRune\<close>, as the bytes it appends.\<close>

definition EncodeRune :: "nat \<Rightarrow> string" where
  "EncodeRune r =
    (if r \<le> 0x7F then [char_of r]
     else if r \<le> 0x7FF then [char_of (0xC0 + r div 64), char_of (0x80 + r mod 64)]
     else if r > MaxRune \<or> (0xD800 \<le> r \<and> r \<le> 0xDFFF) then
       [char_of (0xE0 + RuneError div 4096), char_of (0x80 + (RuneError div 64) mod 64),
        char_of (0x80 + RuneError mod 64)]
     else if r \<le> 0xFFFF then
       [char_of (0xE0 + r div 4096), char_of (0x80 + (r div 64) mod 64), char_of (0x80 + r mod 64)]
     else
       [char_of (0xF0 + r div 262144), char_of (0x80 + (r div 4096) mod 64),
        char_of (0x80 + (r div 64) mod 64), char_of (0x80 + r mod 64)])"

subsection \<open>unicode: character classes\<close>

text \<open>\<open>unicode.IsSpace\<close>: the Latin-1 spaces and the code points of the Unicode
  White_Space property.\<close>

definition IsSpace :: "nat \<Rightarrow> bool" where
  "IsSpace r =
    (if r \<le> 0xFF then
       r = 0x09 \<or> r = 0x0A \<or> r = 0x0B \<or> r = 0x0C \<or> r = 0x0D \<or> r = 0x20 \<or> r = 0x85 \<or> r = 0xA0
     else
       r = 0x1680 \<or> (0x2000 \<le> r \<and> r \<le> 0x200A) \<or> r = 0x2028 \<or> r = 0x2029 \<or> r = 0x202F
       \<or> r = 0x205F \<or> r = 0x3000)"

text \<open>\<open>unicode.IsPrint\<close> (and \<open>strconv.IsPrint\<close>, which has the same definition):
  letters, marks, numbers, punctuation, symbols and the ASCII space. In Latin-1 these are
  0x20-0x7E and 0xA1-0xFF without the soft hyphen 0xAD; above Latin-1 the answer comes
  from the Unicode tables of the Go release, which are a parameter \<open>tbl\<close> here.\<close>

definition IsPrint :: "(nat \<Rightarrow> bool) \<Rightarrow> nat \<Rightarrow> bool" where
  "IsPrint tbl r =
    (if r \<le> 0xFF then (0x20 \<le> r \<and> r < 0x7F) \<or> (0xA1 \<le> r \<and> r \<noteq> 0xAD)
     else tbl r)"

subsection \<open>strconv.AppendQuote\<close>

text \<open>\<open>appendEscapedRune\<close> of package strconv, for the double quote, with neither
  \<open>ASCIIonly\<close> nor \<open>graphicOnly\<close>: as the bytes it appends for one rune.\<close>

definition hexdigits :: "nat \<Rightarrow> nat \<Rightarrow> string" where
  "hexdigits n r = map (\<lambda>k. digit ((r div 16 ^ k) mod 16)) (rev [0..<n])"

definition escapedRune :: "(nat \<Rightarrow> bool) \<Rightarrow> nat \<Rightarrow> string" where
  "escapedRune tbl r =
    (if r = 0x22 \<or> r = 0x5C then [CHR 0x5C, char_of r]
     else if IsPrint tbl r then EncodeRune r
     else if r = 0x07 then [CHR 0x5C, CHR ''a'']
     else if r = 0x08 then [CHR 0x5C, CHR ''b'']
     else if r = 0x0C then [CHR 0x5C, CHR ''f'']
     else if r = 0x0A then [CHR 0x5C, CHR ''n'']
     else if r = 0x0D then [CHR 0x5C, CHR ''r'']
     else if r = 0x09 then [CHR 0x5C, CHR ''t'']
     else if r = 0x0B then [CHR 0x5C, CHR ''v'']
     else if r < 0x20 \<or> r = 0x7F then [CHR 0x5C, CHR ''x''] @ hexdigits 2 r
     else if \<not> ValidRune r then [CHR 0x5C, CHR ''u''] @ hexdigits 4 RuneError
     else if r < 0x10000 then [CHR 0x5C, CHR ''u''] @ hexdigits 4 r
     else [CHR 0x5C, CHR ''U''] @ hexdigits 8 r)"

text \<open>The loop of \<open>appendQuotedWith\<close>: one rune at a time; a byte that is not the
  start of a valid encoding is written as \<open>\xHH\<close>.\<close>

function quoteLoop :: "(nat \<Rightarrow> bool) \<Rightarrow> string \<Rightarrow> string" where
  "quoteLoop tbl s =
    (if s = [] then []
     else
       let (r, width) = (if of_char (hd s) \<ge> RuneSelf then DecodeRune s
                         else ((of_char (hd s) :: nat), 1 :: nat))
       in
       if width = 1 \<and> r = RuneError then
         [CHR 0x5C, CHR ''x''] @ hexdigits 2 (of_char (hd s)) @ quoteLoop tbl (drop 1 s)
       else escapedRune tbl r @ quoteLoop tbl (drop width s))"
  by pat_completeness auto
termination
proof (relation "measure (\<lambda>(tbl, s). length s)")
  fix tbl :: "nat \<Rightarrow> bool" and s :: string and x :: "nat \<times> nat" and r width :: nat
  assume "s \<noteq> []" 
    and x: "x = (if RuneSelf \<le> of_char (hd s) then DecodeRune s else (of_char (hd s), 1))"
    and rw: "(r, width) = x"
  then have "1 \<le> width"
    using DecodeRune_width [of s] by (auto split: if_splits simp: snd_def split: prod.splits)
  with \<open>s \<noteq> []\<close> show "((tbl, drop width s), (tbl, s)) \<in> measure (\<lambda>(tbl, s). length s)"
    by (cases s) auto
qed auto

declare quoteLoop.simps [simp del]

definition AppendQuote :: "(nat \<Rightarrow> bool) \<Rightarrow> buffer \<Rightarrow> string \<Rightarrow> buffer" where
  "AppendQuote tbl b s = b @ [CHR 0x22] @ quoteLoop tbl s @ [CHR 0x22]"

section \<open>Quoting decision (handler.go, lines 420-440)\<close>

text \<open>The \<open>range\<close> loop of \<open>needsQuoting\<close> visits the runes of the string.\<close>

function runeLoop :: "(nat \<Rightarrow> bool) \<Rightarrow> string \<Rightarrow> bool" where
  "runeLoop tbl s =
    (if s = [] then False
     else
       let (r, width) = DecodeRune s in
       if IsSpace r \<or> r = 0x22 \<or> r = 0x3D \<or> \<not> IsPrint tbl r then True
       else runeLoop tbl (drop width s))"
  by pat_completeness auto
termination
proof (relation "measure (\<lambda>(tbl, s). length s)")
  fix tbl :: "nat \<Rightarrow> bool" and s :: string and x :: "nat \<times> nat" and r width :: nat
  assume "s \<noteq> []" and "x = DecodeRune s" and "(r, width) = x"
  then have "1 \<le> width"
    using DecodeRune_width [of s] by (auto simp: snd_def split: prod.splits)
  with \<open>s \<noteq> []\<close> show "((tbl, drop width s), (tbl, s)) \<in> measure (\<lambda>(tbl, s). length s)"
    by (cases s) auto
qed auto

declare runeLoop.simps [simp del]

definition needsQuoting :: "(nat \<Rightarrow> bool) \<Rightarrow> string \<Rightarrow> bool" where
  "needsQuoting tbl s = (if length s = 0 then True else runeLoop tbl s)"

definition appendString :: "(nat \<Rightarrow> bool) \<Rightarrow> buffer \<Rightarrow> string \<Rightarrow> bool \<Rightarrow> buffer" where
  "appendString tbl b s quote =
    (if quote \<and> needsQuoting tbl s then AppendQuote tbl b s else WriteString b s)"

section \<open>Data model (package log/slog, as the handler uses it)\<close>

text \<open>\<open>slog.Level\<close> is a Go \<open>int\<close>: a 64-bit two's complement integer, compared
  signed.\<close>

type_synonym Level = "64 word"

definition LevelDebug :: Level where
  "LevelDebug = - 4"

definition LevelInfo :: Level where
  "LevelInfo = 0"

definition LevelWarn :: Level where
  "LevelWarn = 4"

definition LevelError :: Level where
  "LevelError = 8"

text \<open>\<open>time.Time\<close>: the instant (seconds since January 1 of year 1, and nanoseconds),
  the optional monotonic clock reading, and the name of the location.\<close>

record time =
  sec :: int
  nsec :: nat
  monotonic :: "int option"
  loc :: string

definition IsZero :: "time \<Rightarrow> bool" where
  "IsZero t = (sec t = 0 \<and> nsec t = 0)"

text \<open>\<open>t.Round(0)\<close> strips the monotonic clock reading and changes nothing else.\<close>

definition Round0 :: "time \<Rightarrow> time" where
  "Round0 t = t\<lparr>monotonic := None\<rparr>"

record source =
  Function :: string
  File :: string
  Line :: int

text \<open>
  The dynamic value behind a \<open>KindAny\<close> value, as far as the handler inspects it:
  \<^item> \<open>NilAny\<close>: the nil interface (the zero \<open>slog.Value\<close> holds it);
  \<^item> \<open>LevelAny\<close>: dynamic type \<open>slog.Level\<close>;
  \<^item> \<open>SourceAny\<close>: dynamic type \<open>*slog.Source\<close> (not nil);
  \<^item> \<open>Other\<close>: any other dynamic type, described by what the handler can ask it:
    \<open>Error\<close> is the result of \<open>Error()\<close> when the type implements \<open>error\<close>,
    \<open>MarshalText\<close> the result of \<open>MarshalText()\<close> when it implements
    \<open>encoding.TextMarshaler\<close> (\<open>Inl\<close> the failure, \<open>Inr\<close> the data), and
    \<open>Sprintf\<close> is \<open>fmt.Sprintf("%+v", v)\<close>.
\<close>

record opaque =
  Error :: "string option"
  MarshalText :: "(string + string) option"
  Sprintf :: string

datatype any = NilAny | LevelAny Level | SourceAny source | Other opaque

datatype Kind =
  KindAny | KindBool | KindDuration | KindFloat64 | KindInt64 | KindString | KindTime
  | KindUint64 | KindGroup | KindLogValuer

text \<open>\<open>slog.Attr\<close> and \<open>slog.Value\<close>. A \<open>LogValuerValue\<close> holds the name of the
  dynamic type of its \<open>LogValuer\<close> and the value its \<open>LogValue()\<close> returns.\<close>

datatype Attr = Attr (Key: string) (Value: val)
  and val =
    StringValue string
  | Int64Value "64 word"
  | Uint64Value "64 word"
  | Float64Value "64 word"
  | BoolValue bool
  | DurationValue "64 word"
  | TimeValue time
  | GroupValue "Attr list"
  | AnyValue any
  | LogValuerValue string val

fun Kind_of :: "val \<Rightarrow> Kind" where
  "Kind_of (StringValue _) = KindString"
| "Kind_of (Int64Value _) = KindInt64"
| "Kind_of (Uint64Value _) = KindUint64"
| "Kind_of (Float64Value _) = KindFloat64"
| "Kind_of (BoolValue _) = KindBool"
| "Kind_of (DurationValue _) = KindDuration"
| "Kind_of (TimeValue _) = KindTime"
| "Kind_of (GroupValue _) = KindGroup"
| "Kind_of (AnyValue _) = KindAny"
| "Kind_of (LogValuerValue _ _) = KindLogValuer"

text \<open>\<open>Value.Resolve\<close>: call \<open>LogValue\<close> until the value is no \<open>LogValuer\<close>, at most
  \<open>maxLogValues\<close> times; after that the result is an error value. (A panicking
  \<open>LogValue\<close> is not modelled.)\<close>

definition maxLogValues :: nat where
  "maxLogValues = 100"

fun resolveLoop :: "nat \<Rightarrow> val \<Rightarrow> val option" where
  "resolveLoop 0 v = None"
| "resolveLoop (Suc i) (LogValuerValue ty v) = resolveLoop i v"
| "resolveLoop (Suc i) v = Some v"

definition tooManyTimes :: "val \<Rightarrow> val" where
  "tooManyTimes orig =
    (let ty = (case orig of LogValuerValue ty _ \<Rightarrow> ty | _ \<Rightarrow> []);
         msg = ''LogValue called too many times on Value of type '' @ ty
     in AnyValue (Other \<lparr>Error = Some msg, MarshalText = None, Sprintf = msg\<rparr>))"

definition Resolve :: "val \<Rightarrow> val" where
  "Resolve v = (case resolveLoop maxLogValues v of Some rv \<Rightarrow> rv | None \<Rightarrow> tooManyTimes v)"

text \<open>\<open>attr.Equal(slog.Attr{})\<close>: the key is empty and the value is the zero
  \<open>slog.Value\<close>, which is of kind Any and holds the nil interface.\<close>

definition EqualZero :: "Attr \<Rightarrow> bool" where
  "EqualZero a = (Key a = [] \<and> Value a = AnyValue NilAny)"

text \<open>\<open>attr.Value.Any().(error)\<close>: only a value of kind Any can hold a dynamic type
  that implements \<open>error\<close>; \<open>slog.Level\<close> and \<open>*slog.Source\<close> do not.\<close>

fun asError :: "val \<Rightarrow> string option" where
  "asError (AnyValue (Other x)) = Error x"
| "asError _ = None"

definition TimeKey :: string where
  "TimeKey = ''time''"

definition LevelKey :: string where
  "LevelKey = ''level''"

definition MessageKey :: string where
  "MessageKey = ''msg''"

definition SourceKey :: string where
  "SourceKey = ''source''"

record Record =
  Time :: time
  Message :: string
  Level :: Level
  PC :: nat
  Attrs :: "Attr list"

text \<open>
  What the handler takes from the Go runtime and standard library and this theory does
  not define: the Unicode tables above Latin-1, the formatting of times, durations and
  floating-point numbers, the path functions, the lookup of a program counter's
  frame, and the capacity \<open>append\<close> gives a slice that has to grow (from the old
  capacity and the length needed; the runtime returns at least that length). They are
  parameters of the model.
\<close>

record stdlib =
  printTable :: "nat \<Rightarrow> bool"
  timeFormatted :: "time \<Rightarrow> string \<Rightarrow> string"
  timeString :: "time \<Rightarrow> string"
  durationString :: "64 word \<Rightarrow> string"
  formatFloat :: "64 word \<Rightarrow> string"
  filepathSplit :: "string \<Rightarrow> string \<times> string"
  filepathBase :: "string \<Rightarrow> string"
  filepathJoin :: "string \<Rightarrow> string \<Rightarrow> string"
  callersFrame :: "nat \<Rightarrow> source"
  growslice :: "nat \<Rightarrow> nat \<Rightarrow> nat"

section \<open>Slices of strings\<close>

text \<open>
  A Go slice is a header: its backing array, its length and its capacity. Headers that
  were copied from one another share the backing array, and \<open>append\<close> writes into that
  array when the capacity allows; only otherwise does it allocate a new array, with the
  elements copied. The memory is the list of the backing arrays allocated so far, and a
  header names its array by the position in that list. The nil slice has length and
  capacity 0, and its array is never read; every other header that Go code can hold names
  an array that exists and is as long as the capacity.
\<close>

record slice =
  array :: nat
  len :: nat
  cap :: nat

type_synonym memory = "string list list"

definition nilSlice :: slice where
  "nilSlice = \<lparr>array = 0, len = 0, cap = 0\<rparr>"

text \<open>The elements of a slice, as a \<open>range\<close> loop over it reads them.\<close>

definition elems :: "memory \<Rightarrow> slice \<Rightarrow> string list" where
  "elems M s = take (len s) (M ! array s)"

text \<open>\<open>append(s, x)\<close>: the memory afterwards, and the header returned.\<close>

definition appendSlice :: "stdlib \<Rightarrow> memory \<Rightarrow> slice \<Rightarrow> string \<Rightarrow> memory \<times> slice" where
  "appendSlice E M s x =
    (if len s < cap s then
       (M[array s := (M ! array s)[len s := x]], s\<lparr>len := len s + 1\<rparr>)
     else
       (let c = growslice E (cap s) (len s + 1);
            a = elems M s @ [x] @ replicate (c - (len s + 1)) []
        in (M @ [a], \<lparr>array = length M, len = len s + 1, cap = c\<rparr>)))"

section \<open>The handler (handler.go)\<close>

text \<open>The sink is an \<open>io.Writer\<close>: \<open>Write\<close> takes the sink's state and the bytes and
  returns the new state and an error, if any.\<close>

type_synonym 'w Writer = "'w \<Rightarrow> string \<Rightarrow> 'w \<times> string option"

record 'w handler =
  attrsPrefix :: string
  groupPrefix :: string
  groups :: slice
  w :: "'w Writer"
  addSource :: bool
  level :: Level
  replaceAttr :: "(string list \<Rightarrow> Attr \<Rightarrow> Attr) option"
  timeFormat :: string
  noColor :: bool

record Options =
  AddSource :: bool
  LevelOpt :: "Level option"
  ReplaceAttr :: "(string list \<Rightarrow> Attr \<Rightarrow> Attr) option"
  TimeFormat :: string
  NoColor :: bool

definition defaultLevel :: Level where
  "defaultLevel = LevelInfo"

definition defaultTimeFormat :: string where
  "defaultTimeFormat = ''Jan _2 15:04:05.000''"

definition NewHandler :: "'w Writer \<Rightarrow> Options option \<Rightarrow> 'w handler" where
  "NewHandler wr opts =
    (let h = \<lparr>attrsPrefix = [], groupPrefix = [], groups = nilSlice, w = wr, addSource = False,
              level = defaultLevel, replaceAttr = None, timeFormat = defaultTimeFormat,
              noColor = False\<rparr>
     in case opts of
          None \<Rightarrow> h
        | Some opts \<Rightarrow>
            h\<lparr>addSource := AddSource opts,
              level := (case LevelOpt opts of Some l \<Rightarrow> l | None \<Rightarrow> level h),
              replaceAttr := ReplaceAttr opts,
              timeFormat := (if TimeFormat opts \<noteq> [] then TimeFormat opts else timeFormat h),
              noColor := NoColor opts\<rparr>)"

definition Enabled :: "'w handler \<Rightarrow> Level \<Rightarrow> bool" where
  "Enabled h l = (level h \<le>s l)"

text \<open>\<open>clone\<close> copies every field; the copy of \<open>groups\<close> is a copy of the header, which
  names the same backing array.\<close>

definition clone :: "'w handler \<Rightarrow> 'w handler" where
  "clone h =
    \<lparr>attrsPrefix = attrsPrefix h, groupPrefix = groupPrefix h, groups = groups h, w = w h,
     addSource = addSource h, level = level h, replaceAttr = replaceAttr h,
     timeFormat = timeFormat h, noColor = noColor h\<rparr>"

text \<open>\<open>WithGroup\<close> returns the receiver when the name is empty. Otherwise it appends the
  name to the clone's \<open>groups\<close>: in place, in the array shared with the receiver, when
  that array has room.\<close>

definition WithGroup :: "stdlib \<Rightarrow> memory \<Rightarrow> 'w handler \<Rightarrow> string \<Rightarrow> memory \<times> 'w handler" where
  "WithGroup E M h name =
    (if name = [] then (M, h)
     else
       (let h2 = clone h;
            h2 = h2\<lparr>groupPrefix := groupPrefix h2 @ name @ ''.''\<rparr>;
            (M, g) = appendSlice E M (groups h2) name
        in (M, h2\<lparr>groups := g\<rparr>)))"

subsection \<open>Time, level, source\<close>

definition appendTime :: "stdlib \<Rightarrow> 'w handler \<Rightarrow> buffer \<Rightarrow> time \<Rightarrow> buffer" where
  "appendTime E h b t =
    (let b = WriteStringIf b (\<not> noColor h) ansiFaint;
         b = b @ timeFormatted E t (timeFormat h)
     in WriteStringIf b (\<not> noColor h) ansiReset)"

definition appendLevelDelta :: "buffer \<Rightarrow> Level \<Rightarrow> buffer" where
  "appendLevelDelta b delta =
    (if delta = 0 then b
     else AppendInt (if 0 <s delta then WriteChar b (CHR ''+'') else b) (sint delta))"

definition appendLevel :: "'w handler \<Rightarrow> buffer \<Rightarrow> Level \<Rightarrow> buffer" where
  "appendLevel h b l =
    (if l <s LevelInfo then
       (let b = WriteStringIf b (\<not> noColor h) ansiBrightMagentaFaint;
            b = WriteString b ''DBG'';
            b = appendLevelDelta b (l - LevelDebug)
        in WriteStringIf b (\<not> noColor h) ansiReset)
     else if l <s LevelWarn then
       (let b = WriteStringIf b (\<not> noColor h) ansiBrightGreen;
            b = WriteString b ''INF'';
            b = appendLevelDelta b (l - LevelInfo)
        in WriteStringIf b (\<not> noColor h) ansiReset)
     else if l <s LevelError then
       (let b = WriteStringIf b (\<not> noColor h) ansiBrightYellow;
            b = WriteString b ''WRN'';
            b = appendLevelDelta b (l - LevelWarn)
        in WriteStringIf b (\<not> noColor h) ansiReset)
     else
       (let b = WriteStringIf b (\<not> noColor h) ansiBrightRed;
            b = WriteString b ''ERR'';
            b = appendLevelDelta b (l - LevelError)
        in WriteStringIf b (\<not> noColor h) ansiReset))"

definition appendSource :: "stdlib \<Rightarrow> 'w handler \<Rightarrow> buffer \<Rightarrow> source \<Rightarrow> buffer" where
  "appendSource E h b src =
    (let (dir, file) = filepathSplit E (File src);
         b = WriteStringIf b (\<not> noColor h) ansiFaint;
         b = WriteString b (filepathJoin E (filepathBase E dir) file);
         b = WriteChar b (CHR '':'');
         b = WriteString b (Itoa (Line src))
     in WriteStringIf b (\<not> noColor h) ansiReset)"

subsection \<open>Keys, values, errors\<close>

definition appendKey :: "stdlib \<Rightarrow> 'w handler \<Rightarrow> buffer \<Rightarrow> string \<Rightarrow> string \<Rightarrow> buffer" where
  "appendKey E h b key grps =
    (let b = WriteStringIf b (\<not> noColor h) ansiFaint;
         b = appendString (printTable E) b (grps @ key) True;
         b = WriteChar b (CHR ''='')
     in WriteStringIf b (\<not> noColor h) ansiReset)"

fun appendValue :: "stdlib \<Rightarrow> 'w handler \<Rightarrow> buffer \<Rightarrow> val \<Rightarrow> bool \<Rightarrow> buffer" where
  "appendValue E h b (StringValue s) quote = appendString (printTable E) b s quote"
| "appendValue E h b (Int64Value i) quote = AppendInt b (sint i)"
| "appendValue E h b (Uint64Value u) quote = AppendUint b (unat u)"
| "appendValue E h b (Float64Value f) quote = b @ formatFloat E f"
| "appendValue E h b (BoolValue v) quote = AppendBool b v"
| "appendValue E h b (DurationValue d) quote =
     appendString (printTable E) b (durationString E d) quote"
| "appendValue E h b (TimeValue t) quote = appendString (printTable E) b (timeString E t) quote"
| "appendValue E h b (AnyValue NilAny) quote = appendString (printTable E) b ''<nil>'' quote"
| "appendValue E h b (AnyValue (LevelAny cv)) quote = appendLevel h b cv"
| "appendValue E h b (AnyValue (SourceAny cv)) quote = appendSource E h b cv"
| "appendValue E h b (AnyValue (Other cv)) quote =
     (case MarshalText cv of
        Some (Inl err) \<Rightarrow> b
      | Some (Inr data) \<Rightarrow> appendString (printTable E) b data quote
      | None \<Rightarrow> appendString (printTable E) b (Sprintf cv) quote)"
| "appendValue E h b (GroupValue _) quote = b"
| "appendValue E h b (LogValuerValue _ _) quote = b"

definition appendError ::
  "stdlib \<Rightarrow> 'w handler \<Rightarrow> buffer \<Rightarrow> string \<Rightarrow> string \<Rightarrow> string \<Rightarrow> buffer" where
  "appendError E h b err attrKey groupsPrefix =
    (let b = WriteStringIf b (\<not> noColor h) ansiBrightRedFaint;
         b = appendString (printTable E) b (groupsPrefix @ attrKey) True;
         b = WriteChar b (CHR ''='');
         b = WriteStringIf b (\<not> noColor h) ansiResetFaint;
         b = appendString (printTable E) b err True
     in WriteStringIf b (\<not> noColor h) ansiReset)"

subsection \<open>Attributes\<close>

text \<open>
  The state of one rendering: the buffer, the invocations of the \<open>ReplaceAttr\<close>
  callback so far (the elements of the group list and the attribute it was called with),
  in order, and the memory that holds the backing arrays of the group lists.
  The callback itself is a function of the elements of the list and of the attribute; it
  does not write to the list.

  \<open>appendAttr\<close> calls itself for the attributes of a group, and the callback may return
  a group whose attributes are rewritten again, so the recursion need not end: the first
  argument bounds the nesting depth, and \<open>None\<close> means that the bound was reached.
  \<open>appendAttrs\<close> is the loop over a list of attributes. The \<open>append\<close> to \<open>groups\<close>
  changes the memory.
\<close>

record state =
  buf :: buffer
  calls :: "(string list \<times> Attr) list"
  heap :: memory

fun appendAttr ::
    "nat \<Rightarrow> stdlib \<Rightarrow> 'w handler \<Rightarrow> state \<Rightarrow> Attr \<Rightarrow> string \<Rightarrow> slice \<Rightarrow> state option"
  and appendAttrs ::
    "nat \<Rightarrow> stdlib \<Rightarrow> 'w handler \<Rightarrow> state \<Rightarrow> Attr list \<Rightarrow> string \<Rightarrow> slice \<Rightarrow> state option"
where
  "appendAttr 0 E h s attr groupsPrefix grps = None"
| "appendAttr (Suc n) E h s attr groupsPrefix grps =
    (let attr = Attr (Key attr) (Resolve (Value attr));
         (attr, s) =
           (case replaceAttr h of
              Some rep \<Rightarrow>
                if Kind_of (Value attr) \<noteq> KindGroup then
                  (let attr' = rep (elems (heap s) grps) attr
                   in (Attr (Key attr') (Resolve (Value attr')),
                       s\<lparr>calls := calls s @ [(elems (heap s) grps, attr)]\<rparr>))
                else (attr, s)
            | None \<Rightarrow> (attr, s))
     in
     if EqualZero attr then Some s
     else
       case Value attr of
         GroupValue attrs \<Rightarrow>
           (let (groupsPrefix, grps, s) =
                  (if Key attr \<noteq> [] then
                     (let (M, g) = appendSlice E (heap s) grps (Key attr)
                      in (groupsPrefix @ Key attr @ ''.'', g, s\<lparr>heap := M\<rparr>))
                   else (groupsPrefix, grps, s))
            in appendAttrs n E h s attrs groupsPrefix grps)
       | v \<Rightarrow>
           (case asError v of
              Some err \<Rightarrow>
                Some (s\<lparr>buf := WriteChar (appendError E h (buf s) err (Key attr) groupsPrefix)
                                  (CHR '' '')\<rparr>)
            | None \<Rightarrow>
                Some (s\<lparr>buf := WriteChar
                                  (appendValue E h (appendKey E h (buf s) (Key attr) groupsPrefix)
                                     v True)
                                  (CHR '' '')\<rparr>)))"
| "appendAttrs n E h s [] groupsPrefix grps = Some s"
| "appendAttrs n E h s (attr # attrs) groupsPrefix grps =
    (case appendAttr n E h s attr groupsPrefix grps of
       None \<Rightarrow> None
     | Some s \<Rightarrow> appendAttrs n E h s attrs groupsPrefix grps)"

subsection \<open>Handle\<close>

text \<open>The four leading segments of a line, each a step of \<open>Handle\<close>.\<close>

definition callRep ::
    "(string list \<Rightarrow> Attr \<Rightarrow> Attr) \<Rightarrow> state \<Rightarrow> string list \<Rightarrow> Attr \<Rightarrow> Attr \<times> state" where
  "callRep rep s grps a = (rep grps a, s\<lparr>calls := calls s @ [(grps, a)]\<rparr>)"

definition writeTime :: "stdlib \<Rightarrow> 'w handler \<Rightarrow> state \<Rightarrow> Record \<Rightarrow> state" where
  "writeTime E h s r =
    (if \<not> IsZero (Time r) then
       (let val = Round0 (Time r) in
        case replaceAttr h of
          None \<Rightarrow> s\<lparr>buf := WriteChar (appendTime E h (buf s) (Time r)) (CHR '' '')\<rparr>
        | Some rep \<Rightarrow>
            (let (a, s) = callRep rep s [] (Attr TimeKey (TimeValue val)) in
             if Key a \<noteq> [] then
               (case Value a of
                  TimeValue t \<Rightarrow> s\<lparr>buf := WriteChar (appendTime E h (buf s) t) (CHR '' '')\<rparr>
                | v \<Rightarrow> s\<lparr>buf := WriteChar (appendValue E h (buf s) v False) (CHR '' '')\<rparr>)
             else s))
     else s)"

definition writeLevel :: "stdlib \<Rightarrow> 'w handler \<Rightarrow> state \<Rightarrow> Record \<Rightarrow> state" where
  "writeLevel E h s r =
    (case replaceAttr h of
       None \<Rightarrow> s\<lparr>buf := WriteChar (appendLevel h (buf s) (Level r)) (CHR '' '')\<rparr>
     | Some rep \<Rightarrow>
         (let (a, s) = callRep rep s [] (Attr LevelKey (AnyValue (LevelAny (Level r)))) in
          if Key a \<noteq> [] then
            s\<lparr>buf := WriteChar (appendValue E h (buf s) (Value a) False) (CHR '' '')\<rparr>
          else s))"

definition writeSource :: "stdlib \<Rightarrow> 'w handler \<Rightarrow> state \<Rightarrow> Record \<Rightarrow> state" where
  "writeSource E h s r =
    (if addSource h then
       (let f = callersFrame E (PC r) in
        if File f \<noteq> [] then
          (let src = \<lparr>Function = Function f, File = File f, Line = Line f\<rparr> in
           case replaceAttr h of
             None \<Rightarrow> s\<lparr>buf := WriteChar (appendSource E h (buf s) src) (CHR '' '')\<rparr>
           | Some rep \<Rightarrow>
               (let (a, s) = callRep rep s [] (Attr SourceKey (AnyValue (SourceAny src))) in
                if Key a \<noteq> [] then
                  s\<lparr>buf := WriteChar (appendValue E h (buf s) (Value a) False) (CHR '' '')\<rparr>
                else s))
        else s)
     else s)"

definition writeMessage :: "stdlib \<Rightarrow> 'w handler \<Rightarrow> state \<Rightarrow> Record \<Rightarrow> state" where
  "writeMessage E h s r =
    (case replaceAttr h of
       None \<Rightarrow> s\<lparr>buf := WriteChar (WriteString (buf s) (Message r)) (CHR '' '')\<rparr>
     | Some rep \<Rightarrow>
         (let (a, s) = callRep rep s [] (Attr MessageKey (StringValue (Message r))) in
          if Key a \<noteq> [] then
            s\<lparr>buf := WriteChar (appendValue E h (buf s) (Value a) False) (CHR '' '')\<rparr>
          else s))"

text \<open>The state of \<open>Handle\<close> before the last byte of the buffer is replaced; \<open>M\<close> is
  the memory at the call.\<close>

definition render :: "nat \<Rightarrow> stdlib \<Rightarrow> memory \<Rightarrow> 'w handler \<Rightarrow> Record \<Rightarrow> state option" where
  "render n E M h r =
    (let s = \<lparr>buf = newBuffer, calls = [], heap = M\<rparr>;
         s = writeTime E h s r;
         s = writeLevel E h s r;
         s = writeSource E h s r;
         s = writeMessage E h s r;
         s = (if length (attrsPrefix h) > 0 then s\<lparr>buf := WriteString (buf s) (attrsPrefix h)\<rparr>
              else s)
     in appendAttrs n E h s (Attrs r) (groupPrefix h) (groups h))"

text \<open>
  The outcome of \<open>Handle\<close>: the state of the sink afterwards, the error returned
  (\<open>None\<close> is Go's \<open>nil\<close>), the bytes handed to \<open>Write\<close> (\<open>None\<close> when \<open>Write\<close> was not
  called), the callback invocations, and the memory afterwards. The mutex only serialises
  the writes of concurrent calls and is not modelled.
\<close>

record 'w outcome =
  sink :: 'w
  err :: "string option"
  written :: "string option"
  invoked :: "(string list \<times> Attr) list"
  store :: memory

definition Handle ::
    "nat \<Rightarrow> stdlib \<Rightarrow> memory \<Rightarrow> 'w handler \<Rightarrow> 'w \<Rightarrow> Record \<Rightarrow> 'w outcome option" where
  "Handle n E M h out r =
    (case render n E M h r of
       None \<Rightarrow> None
     | Some s \<Rightarrow>
         if length (buf s) = 0 then
           Some \<lparr>sink = out, err = None, written = None, invoked = calls s, store = heap s\<rparr>
         else
           (let b = (buf s)[length (buf s) - 1 := CHR 0x0A];
                (out, e) = w h out b
            in Some \<lparr>sink = out, err = e, written = Some b, invoked = calls s,
                     store = heap s\<rparr>))"

text \<open>\<open>WithAttrs\<close> renders the attributes with the receiver's group prefix and group
  list; the result is the memory afterwards and the new handler.\<close>

definition WithAttrs ::
    "nat \<Rightarrow> stdlib \<Rightarrow> memory \<Rightarrow> 'w handler \<Rightarrow> Attr list \<Rightarrow> (memory \<times> 'w handler) option" where
  "WithAttrs n E M h attrs =
    (if length attrs = 0 then Some (M, h)
     else
       case appendAttrs n E h \<lparr>buf = newBuffer, calls = [], heap = M\<rparr> attrs (groupPrefix h)
              (groups h) of
         None \<Rightarrow> None
       | Some s \<Rightarrow> Some (heap s, (clone h)\<lparr>attrsPrefix := attrsPrefix h @ buf s\<rparr>))"

section \<open>Basic facts about the buffer functions\<close>

lemma WriteStringIf_app: "WriteStringIf b ok str = b @ (if ok then str else [])"
  by (simp add: WriteStringIf_def WriteString_def)

lemma appendString_app: "appendString tbl b s q = b @ appendString tbl [] s q"
  by (simp add: appendString_def AppendQuote_def WriteString_def)

lemma digits10_nonempty: "digits10 n \<noteq> []"
  by (subst digits10.simps) simp

lemma digits10_small: "n < 10 \<Longrightarrow> digits10 n = [digit n]"
  by (subst digits10.simps) simp

section \<open>Levels\<close>

text \<open>No subtraction in \<open>appendLevel\<close> overflows: each is taken in a range where the
  difference of the signed values is representable.\<close>

lemma sint_bounds64:
  "- 9223372036854775808 \<le> sint (l::Level)" "sint (l::Level) < 9223372036854775808"
  using sint_ge [of l] sint_lt [of l] by simp_all

lemma sint_sub_Debug: "sint l < 0 \<Longrightarrow> sint (l - LevelDebug) = sint l + 4"
  unfolding LevelDebug_def using sint_bounds64 [of l]
  by (simp add: signed_take_bit_int_eq_self_iff sint_word_ariths)

lemma sint_sub_Warn: "0 \<le> sint l \<Longrightarrow> sint (l - LevelWarn) = sint l - 4"
  unfolding LevelWarn_def using sint_bounds64 [of l]
  by (simp add: signed_take_bit_int_eq_self_iff sint_word_ariths)

lemma sint_sub_Error: "0 \<le> sint l \<Longrightarrow> sint (l - LevelError) = sint l - 8"
  unfolding LevelError_def using sint_bounds64 [of l]
  by (simp add: signed_take_bit_int_eq_self_iff sint_word_ariths)

lemma sub_Info: "l - LevelInfo = l"
  by (simp add: LevelInfo_def)

lemma sless_Info: "(l <s LevelInfo) = (sint l < 0)"
  by (simp add: word_sless_alt LevelInfo_def)

lemma sless_Warn: "(l <s LevelWarn) = (sint l < 4)"
  by (simp add: word_sless_alt LevelWarn_def)

lemma sless_Error: "(l <s LevelError) = (sint l < 8)"
  by (simp add: word_sless_alt LevelError_def)

lemma sint_Info2: "sint (LevelInfo + 2) = 2"
  by (simp add: LevelInfo_def)

lemma sint_Info: "sint LevelInfo = 0"
  by (simp add: LevelInfo_def)

lemma sint_Warn: "sint LevelWarn = 4"
  by (simp add: LevelWarn_def)

text \<open>The level label as the specification words it: the label and the reference level
  of the half-open range the level lies in, and the signed text of a difference.\<close>

definition levelLabel :: "Level \<Rightarrow> string" where
  "levelLabel l =
    (if sint l < 0 then ''DBG'' else if sint l < 4 then ''INF''
     else if sint l < 8 then ''WRN'' else ''ERR'')"

definition levelReference :: "Level \<Rightarrow> int" where
  "levelReference l =
    (if sint l < 0 then - 4 else if sint l < 4 then 0 else if sint l < 8 then 4 else 8)"

definition levelColor :: "Level \<Rightarrow> string" where
  "levelColor l =
    (if sint l < 0 then ansiBrightMagentaFaint else if sint l < 4 then ansiBrightGreen
     else if sint l < 8 then ansiBrightYellow else ansiBrightRed)"

definition deltaText :: "int \<Rightarrow> string" where
  "deltaText d =
    (if d = 0 then [] else if 0 < d then CHR ''+'' # digits10 (nat d)
     else CHR ''-'' # digits10 (nat (- d)))"

lemma appendLevelDelta_text: "appendLevelDelta b delta = b @ deltaText (sint delta)"
proof -
  have z: "(delta = 0) = (sint delta = 0)"
    by (simp add: signed_eq_0_iff)
  have p: "(0 <s delta) = (0 < sint delta)"
    by (simp add: word_sless_alt)
  show ?thesis
    by (simp add: appendLevelDelta_def deltaText_def AppendInt_def WriteChar_def z p)
qed

lemma appendLevel_text:
  "appendLevel h b l =
     b @ (if noColor h then [] else levelColor l) @ levelLabel l
       @ deltaText (sint l - levelReference l) @ (if noColor h then [] else ansiReset)"
  by (simp add: appendLevel_def sless_Info sless_Warn sless_Error WriteStringIf_app
      WriteString_def appendLevelDelta_text sint_sub_Debug sint_sub_Warn sint_sub_Error
      levelLabel_def levelReference_def levelColor_def sub_Info)

text \<open>
  Claim C3. For every level, \<open>appendLevel\<close> writes the label of the half-open range the
  level lies in (\<open>DBG\<close> below Info, \<open>INF\<close> below Warn, \<open>WRN\<close> below Error, \<open>ERR\<close>
  otherwise), in the color of that range when color is enabled, followed by the signed
  decimal difference to the range's reference level; the difference text is empty exactly
  when the level equals the reference. Info+2 renders \<open>INF+2\<close> and Warn renders \<open>WRN\<close>.
\<close>

theorem C3_level_label_and_delta:
  "appendLevel h b l =
     b @ (if noColor h then [] else levelColor l) @ levelLabel l
       @ deltaText (sint l - levelReference l) @ (if noColor h then [] else ansiReset)
   \<and> (deltaText (sint l - levelReference l) = []) = (sint l = levelReference l)
   \<and> appendLevel (h\<lparr>noColor := True\<rparr>) [] (LevelInfo + 2) = ''INF+2''
   \<and> appendLevel (h\<lparr>noColor := True\<rparr>) [] LevelWarn = ''WRN''"
proof -
  have 1: "(deltaText (sint l - levelReference l) = []) = (sint l = levelReference l)"
    by (simp add: deltaText_def)
  have 2: "appendLevel (h\<lparr>noColor := True\<rparr>) [] (LevelInfo + 2) = ''INF+2''"
    by (simp add: appendLevel_text sint_Info2 levelLabel_def levelReference_def deltaText_def
        digits10_small digit_def)
  have 3: "appendLevel (h\<lparr>noColor := True\<rparr>) [] LevelWarn = ''WRN''"
    by (simp add: appendLevel_text sint_Warn levelLabel_def levelReference_def deltaText_def)
  show ?thesis using appendLevel_text 1 2 3 by blast
qed

section \<open>Quoting of ASCII text\<close>

definition plainByte :: "char \<Rightarrow> bool" where
  "plainByte c = (0x21 \<le> (of_char c :: nat) \<and> (of_char c :: nat) < 0x7F \<and> c \<noteq> CHR 0x22 \<and> c \<noteq> CHR ''='')"

lemma DecodeRune_ascii: "(of_char c :: nat) < 0x80 \<Longrightarrow> DecodeRune (c # cs) = (of_char c, 1)"
  by (simp add: DecodeRune.simps)

lemma of_char_eq_iff_nat: "((of_char c :: nat) = of_char d) = (c = d)"
  by (metis char_of_char)

lemma runeLoop_Nil [simp]: "runeLoop tbl [] = False"
  by (simp add: runeLoop.simps)

lemma byte_eq_quote: "((of_char c :: nat) = 0x22) = (c = CHR 0x22)"
  using of_char_eq_iff_nat [of c "CHR 0x22"] by simp

lemma byte_eq_equals: "((of_char c :: nat) = 0x3D) = (c = CHR ''='')"
  using of_char_eq_iff_nat [of c "CHR ''=''"] by simp

lemma byte_eq_backslash: "((of_char c :: nat) = 0x5C) = (c = CHR 0x5C)"
  using of_char_eq_iff_nat [of c "CHR 0x5C"] by simp

lemma runeLoop_ascii:
  assumes "(of_char c :: nat) < 0x80"
  shows "runeLoop tbl (c # cs) = (\<not> plainByte c \<or> runeLoop tbl cs)"
proof -
  have "(IsSpace (of_char c) \<or> (of_char c :: nat) = 0x22 \<or> (of_char c :: nat) = 0x3D \<or> \<not> IsPrint tbl (of_char c))
      = (\<not> plainByte c)"
    using assms by (auto simp: IsSpace_def IsPrint_def plainByte_def byte_eq_quote byte_eq_equals)
  then show ?thesis
    using assms by (subst runeLoop.simps) (simp add: DecodeRune_ascii)
qed

lemma quoteLoop_Nil [simp]: "quoteLoop tbl [] = []"
  by (simp add: quoteLoop.simps)

lemma quoteLoop_ascii_print:
  assumes "0x20 \<le> (of_char c :: nat)" "(of_char c :: nat) < 0x7F" "c \<noteq> CHR 0x22" "c \<noteq> CHR 0x5C"
  shows "quoteLoop tbl (c # cs) = c # quoteLoop tbl cs"
proof -
  have "escapedRune tbl (of_char c) = [c]"
    using assms by (simp add: escapedRune_def IsPrint_def EncodeRune_def byte_eq_quote byte_eq_backslash)
  then show ?thesis
    using assms by (subst quoteLoop.simps) (simp add: RuneSelf_def RuneError_def)
qed





section \<open>What each function appends\<close>

lemma AppendInt_app: "AppendInt b i = b @ AppendInt [] i"
  by (simp add: AppendInt_def)

lemma appendTime_app: "appendTime E h b t = b @ appendTime E h [] t"
  by (simp add: appendTime_def WriteStringIf_app)

lemma appendLevel_app: "appendLevel h b l = b @ appendLevel h [] l"
  by (simp add: appendLevel_text)

lemma appendSource_app: "appendSource E h b src = b @ appendSource E h [] src"
  by (simp add: appendSource_def WriteStringIf_app WriteString_def WriteChar_def split: prod.splits)

lemma appendKey_text:
  "appendKey E h b key grps =
     b @ (if noColor h then [] else ansiFaint) @ appendString (printTable E) [] (grps @ key) True
       @ ''='' @ (if noColor h then [] else ansiReset)"
  by (simp add: appendKey_def WriteStringIf_app WriteChar_def appendString_app [of _ "b @ _"]
        appendString_app [of _ b])

lemma appendKey_app: "appendKey E h b key grps = b @ appendKey E h [] (grps @ key) []"
  by (simp add: appendKey_text)

lemma appendError_text:
  "appendError E h b msg attrKey groupsPrefix =
     b @ (if noColor h then [] else ansiBrightRedFaint)
       @ appendString (printTable E) [] (groupsPrefix @ attrKey) True @ ''=''
       @ (if noColor h then [] else ansiResetFaint)
       @ appendString (printTable E) [] msg True @ (if noColor h then [] else ansiReset)"
  by (simp add: appendError_def WriteStringIf_app WriteChar_def Let_def
        appendString_app [of _ "_ @ _"] appendString_app [of _ b])

lemma appendError_app:
  "appendError E h b msg attrKey groupsPrefix = b @ appendError E h [] msg (groupsPrefix @ attrKey) []"
  by (simp add: appendError_text)

lemma appendValue_app: "appendValue E h b v q = b @ appendValue E h [] v q"
proof (cases v)
  case (AnyValue x)
  then show ?thesis
  proof (cases x)
    case (Other cv)
    with AnyValue show ?thesis
      by (simp add: appendString_app [of _ b] split: option.splits sum.splits)
  qed (simp_all add: appendString_app [of _ b] appendLevel_app [of _ b] appendSource_app [of _ _ b])
qed (simp_all add: appendString_app [of _ b] AppendInt_app [of b] AppendUint_def AppendBool_def)

definition resolved :: "Attr \<Rightarrow> Attr" where
  "resolved a = Attr (Key a) (Resolve (Value a))"

definition rewritten :: "'w handler \<Rightarrow> string list \<Rightarrow> Attr \<Rightarrow> Attr" where
  "rewritten h grps a =
    (case replaceAttr h of
       Some rep \<Rightarrow>
         if Kind_of (Value (resolved a)) \<noteq> KindGroup then resolved (rep grps (resolved a))
         else resolved a
     | None \<Rightarrow> resolved a)"

definition rewriteCalls :: "'w handler \<Rightarrow> string list \<Rightarrow> Attr \<Rightarrow> (string list \<times> Attr) list" where
  "rewriteCalls h grps a =
    (case replaceAttr h of
       Some rep \<Rightarrow> if Kind_of (Value (resolved a)) \<noteq> KindGroup then [(grps, resolved a)] else []
     | None \<Rightarrow> [])"

definition leafText :: "stdlib \<Rightarrow> 'w handler \<Rightarrow> string \<Rightarrow> val \<Rightarrow> string" where
  "leafText E h k v =
    (case asError v of
       Some msg \<Rightarrow> appendError E h [] msg k []
     | None \<Rightarrow> appendValue E h (appendKey E h [] k []) v True) @ '' ''"

lemma leaf_generic:
  assumes "asError v = None"
  shows "WriteChar (appendValue E h (appendKey E h b k p) v True) (CHR '' '')
         = b @ leafText E h (p @ k) v"
proof -
  have "appendValue E h (appendKey E h b k p) v True
        = b @ appendValue E h (appendKey E h [] (p @ k) []) v True"
    by (subst appendValue_app, subst appendKey_app, subst (2) appendValue_app) simp
  then show ?thesis
    using assms by (simp add: leafText_def WriteChar_def)
qed

lemma leaf_error:
  assumes "asError v = Some m"
  shows "WriteChar (appendError E h b m k p) (CHR '' '') = b @ leafText E h (p @ k) v"
  using assms by (simp add: leafText_def WriteChar_def appendError_app [of _ _ b])

text \<open>The step into a group with key \<open>k\<close>: the prefix passed on, the memory after the
  \<open>append\<close> to the group list, and the list passed on. A group with an empty key changes
  none of them.\<close>

definition pushPrefix :: "string \<Rightarrow> string \<Rightarrow> string" where
  "pushPrefix p k = (if k \<noteq> [] then p @ k @ ''.'' else p)"

definition pushMemory :: "stdlib \<Rightarrow> memory \<Rightarrow> slice \<Rightarrow> string \<Rightarrow> memory" where
  "pushMemory E M g k = (if k \<noteq> [] then fst (appendSlice E M g k) else M)"

definition pushSlice :: "stdlib \<Rightarrow> memory \<Rightarrow> slice \<Rightarrow> string \<Rightarrow> slice" where
  "pushSlice E M g k = (if k \<noteq> [] then snd (appendSlice E M g k) else g)"

definition children :: "Attr \<Rightarrow> Attr list" where
  "children a = (case Value a of GroupValue as \<Rightarrow> as | _ \<Rightarrow> [])"

lemma appendAttr_unfold:
  "appendAttr (Suc n) E h s a p g =
    (if EqualZero (rewritten h (elems (heap s) g) a)
     then Some (s\<lparr>calls := calls s @ rewriteCalls h (elems (heap s) g) a\<rparr>)
     else if Kind_of (Value (rewritten h (elems (heap s) g) a)) = KindGroup then
       appendAttrs n E h
         (s\<lparr>calls := calls s @ rewriteCalls h (elems (heap s) g) a,
            heap := pushMemory E (heap s) g (Key (rewritten h (elems (heap s) g) a))\<rparr>)
         (children (rewritten h (elems (heap s) g) a))
         (pushPrefix p (Key (rewritten h (elems (heap s) g) a)))
         (pushSlice E (heap s) g (Key (rewritten h (elems (heap s) g) a)))
     else Some (s\<lparr>buf := buf s @ leafText E h (p @ Key (rewritten h (elems (heap s) g) a))
                                     (Value (rewritten h (elems (heap s) g) a)),
                  calls := calls s @ rewriteCalls h (elems (heap s) g) a\<rparr>))"
proof (cases "replaceAttr h")
  case None
  then have r: "rewritten h G a = resolved a" "rewriteCalls h G a = []" for G
    by (simp_all add: rewritten_def rewriteCalls_def)
  show ?thesis
    unfolding r using None
    by (cases "Resolve (Value a)")
       (simp_all add: resolved_def leaf_generic leaf_error Let_def pushMemory_def pushSlice_def
         pushPrefix_def children_def del: appendValue.simps split: option.splits prod.splits)
next
  case (Some rep)
  show ?thesis
  proof (cases "Kind_of (Value (resolved a)) \<noteq> KindGroup")
    case True
    with Some have r: "rewritten h G a = resolved (rep G (resolved a))"
      "rewriteCalls h G a = [(G, resolved a)]" for G
      by (simp_all add: rewritten_def rewriteCalls_def)
    show ?thesis
      unfolding r using Some True
      by (cases "Resolve (Value (rep (elems (heap s) g) (resolved a)))")
         (simp_all add: resolved_def leaf_generic leaf_error Let_def pushMemory_def pushSlice_def
         pushPrefix_def children_def del: appendValue.simps split: option.splits prod.splits)
  next
    case False
    with Some have r: "rewritten h G a = resolved a" "rewriteCalls h G a = []" for G
      by (simp_all add: rewritten_def rewriteCalls_def)
    show ?thesis
      unfolding r using Some False
      by (cases "Resolve (Value a)")
         (simp_all add: resolved_def leaf_generic leaf_error Let_def pushMemory_def pushSlice_def
         pushPrefix_def children_def del: appendValue.simps split: option.splits prod.splits)
  qed
qed

section \<open>Sample inputs\<close>

definition sampleLib :: stdlib where
  "sampleLib =
    \<lparr>printTable = (\<lambda>r. False),
     timeFormatted = (\<lambda>t layout. ''12:00:00.000''),
     timeString = (\<lambda>t. ''2024-01-01 12:00:00 +0000 UTC''),
     durationString = (\<lambda>d. ''1s''),
     formatFloat = (\<lambda>f. ''1.5''),
     filepathSplit = (\<lambda>p. ([], p)),
     filepathBase = (\<lambda>p. p),
     filepathJoin = (\<lambda>d f. d @ ''/'' @ f),
     callersFrame = (\<lambda>pc. \<lparr>Function = [], File = [], Line = 0\<rparr>),
     growslice = (\<lambda>c n. if 2 * c < n then n else 2 * c)\<rparr>"

definition sampleWriter :: "string Writer" where
  "sampleWriter st b = (st @ b, None)"

definition plainHandler :: "string handler" where
  "plainHandler = NewHandler sampleWriter
     (Some \<lparr>AddSource = False, LevelOpt = None, ReplaceAttr = None, TimeFormat = [], NoColor = True\<rparr>)"

definition connReset :: val where
  "connReset = AnyValue (Other \<lparr>Error = Some ''connection reset'', MarshalText = None,
     Sprintf = ''connection reset''\<rparr>)"

definition noTime :: time where
  "noTime = \<lparr>sec = 0, nsec = 0, monotonic = None, loc = ''UTC''\<rparr>"

lemma plainHandler_simps:
  "replaceAttr plainHandler = None" "noColor plainHandler" "attrsPrefix plainHandler = []"
  "groupPrefix plainHandler = []" "groups plainHandler = nilSlice" "\<not> addSource plainHandler"
  "w plainHandler = sampleWriter"
  by (simp_all add: plainHandler_def NewHandler_def)

lemma clone_same [simp]: "clone h = h"
  by (simp add: clone_def)

lemma elems_nilSlice [simp]: "elems M nilSlice = []"
  by (simp add: elems_def nilSlice_def)

lemma Resolve_plain [simp]:
  "Resolve (StringValue x) = StringValue x" "Resolve (AnyValue y) = AnyValue y"
  "Resolve (GroupValue as) = GroupValue as" "Resolve (TimeValue t) = TimeValue t"
  by (simp_all add: Resolve_def maxLogValues_def eval_nat_numeral)

lemma str_err: "appendString tbl [] ''err'' True = ''err''"
  by (simp add: appendString_def needsQuoting_def runeLoop_ascii plainByte_def WriteString_def)

lemma str_connReset:
  "appendString tbl [] ''connection reset'' True = CHR 0x22 # ''connection reset'' @ [CHR 0x22]"
  by (simp add: appendString_def needsQuoting_def runeLoop_ascii plainByte_def AppendQuote_def
      quoteLoop_ascii_print)

lemma writeTime_zero: "IsZero (Time r) \<Longrightarrow> writeTime E h s r = s"
  by (simp add: writeTime_def)

lemma writeLevel_plain:
  "replaceAttr h = None \<Longrightarrow> writeLevel E h s r = s\<lparr>buf := buf s @ appendLevel h [] (Level r) @ '' ''\<rparr>"
  by (simp add: writeLevel_def WriteChar_def appendLevel_app [of h "buf s"])

lemma writeSource_off: "\<not> addSource h \<Longrightarrow> writeSource E h s r = s"
  by (simp add: writeSource_def)

lemma writeMessage_plain:
  "replaceAttr h = None \<Longrightarrow> writeMessage E h s r = s\<lparr>buf := buf s @ Message r @ '' ''\<rparr>"
  by (simp add: writeMessage_def WriteChar_def WriteString_def)

lemma level_INF: "appendLevel plainHandler [] LevelInfo = ''INF''"
  by (simp add: appendLevel_text plainHandler_simps sint_Info levelLabel_def levelReference_def deltaText_def)

declare appendAttr.simps(2) [simp del]

lemma replace_last: "b \<noteq> [] \<Longrightarrow> b[length b - Suc 0 := c] = butlast b @ [c]"
  by (induction b rule: rev_induct) simp_all

lemma Handle_eq:
  "Handle n E M h out r =
    (case render n E M h r of
       None \<Rightarrow> None
     | Some s \<Rightarrow>
         if buf s = [] then
           Some \<lparr>sink = out, err = None, written = None, invoked = calls s, store = heap s\<rparr>
         else Some \<lparr>sink = fst (w h out (butlast (buf s) @ [CHR 0x0A])),
                     err = snd (w h out (butlast (buf s) @ [CHR 0x0A])),
                     written = Some (butlast (buf s) @ [CHR 0x0A]), invoked = calls s,
                     store = heap s\<rparr>)"
  by (auto simp add: Handle_def Let_def replace_last split: option.splits prod.splits)



section \<open>Error values, dropped attributes, failing marshalers\<close>

text \<open>The state at the start of a rendering, in the memory \<open>M\<close>; \<open>emptyState\<close> is the one
  in the memory without arrays.\<close>

definition startState :: "memory \<Rightarrow> state" where
  "startState M = \<lparr>buf = [], calls = [], heap = M\<rparr>"

definition emptyState :: state where
  "emptyState = startState []"

lemma startState_simps [simp]:
  "buf (startState M) = []" "calls (startState M) = []" "heap (startState M) = M"
  by (simp_all add: startState_def)

lemma emptyState_simps [simp]:
  "buf emptyState = []" "calls emptyState = []" "heap emptyState = []"
  by (simp_all add: emptyState_def)

definition dropSecret :: "string list \<Rightarrow> Attr \<Rightarrow> Attr" where
  "dropSecret grps a = (if Key a = ''secret'' then Attr [] (AnyValue NilAny) else a)"

definition failingMarshal :: val where
  "failingMarshal = AnyValue (Other \<lparr>Error = None, MarshalText = Some (Inl ''boom''), Sprintf = ''{}''\<rparr>)"

text \<open>
  The error attribute \<open>err\<close> with message \<open>connection reset\<close> is not rendered as
  \<open>err=connection reset\<close>: \<open>appendError\<close> passes the message to \<open>appendString\<close> with
  quoting enabled, and the message contains a space, so it is written in double quotes.
\<close>

theorem C1_counterexample:
  "map_option written
     (Handle 1 sampleLib [] plainHandler []
        \<lparr>Time = noTime, Message = ''failed'', Level = LevelInfo, PC = 0,
         Attrs = [Attr ''err'' connReset]\<rparr>)
   = Some (Some (''INF failed err='' @ [CHR 0x22] @ ''connection reset'' @ [CHR 0x22, CHR 0x0A]))
   \<and> map_option written
     (Handle 1 sampleLib [] plainHandler []
        \<lparr>Time = noTime, Message = ''failed'', Level = LevelInfo, PC = 0,
         Attrs = [Attr ''err'' connReset]\<rparr>)
   \<noteq> Some (Some (''INF failed err=connection reset'' @ [CHR 0x0A]))"
  by (simp add: Handle_eq render_def newBuffer_def writeTime_zero noTime_def IsZero_def
      writeLevel_plain writeSource_off writeMessage_plain plainHandler_simps level_INF
      appendAttr_unfold rewritten_def rewriteCalls_def resolved_def connReset_def EqualZero_def
      leafText_def appendError_text str_err str_connReset sampleWriter_def)

text \<open>
  Claim C1, amended. On a handler without rewrite callback, an attribute whose value is
  opaque and implements \<open>error\<close> is rendered as the dotted key, \<open>=\<close> and the failure
  message, the key and the message each quoted when \<open>needsQuoting\<close> says so (the key
  \<open>err\<close> is written as it is, the message \<open>connection reset\<close> in double quotes),
  followed by the separator. With color enabled the key is preceded by the bright-red-faint
  mode, the message by the reset-faint mode and followed by the reset; the faint mode of
  the generic key is not used. With color disabled no mode is written.
\<close>

theorem C1_error_attribute_rendering:
  "appendAttr (Suc n) E (h\<lparr>replaceAttr := None\<rparr>) s
       (Attr k (AnyValue (Other (x\<lparr>Error := Some msg\<rparr>)))) p g
     = Some (s\<lparr>buf := buf s @ (if noColor h then [] else ansiBrightRedFaint)
                @ appendString (printTable E) [] (p @ k) True @ ''=''
                @ (if noColor h then [] else ansiResetFaint)
                @ appendString (printTable E) [] msg True
                @ (if noColor h then [] else ansiReset) @ '' ''\<rparr>)
   \<and> appendString (printTable E) [] ''err'' True = ''err''
   \<and> appendString (printTable E) [] ''connection reset'' True
       = [CHR 0x22] @ ''connection reset'' @ [CHR 0x22]"
proof -
  have "appendAttr (Suc n) E (h\<lparr>replaceAttr := None\<rparr>) s
       (Attr k (AnyValue (Other (x\<lparr>Error := Some msg\<rparr>)))) p g
     = Some (s\<lparr>buf := buf s @ (if noColor h then [] else ansiBrightRedFaint)
                @ appendString (printTable E) [] (p @ k) True @ ''=''
                @ (if noColor h then [] else ansiResetFaint)
                @ appendString (printTable E) [] msg True
                @ (if noColor h then [] else ansiReset) @ '' ''\<rparr>)"
    by (simp add: appendAttr_unfold rewritten_def rewriteCalls_def resolved_def EqualZero_def
        leafText_def appendError_text)
  then show ?thesis
    by (simp add: str_err str_connReset)
qed

text \<open>
  An attribute with an empty key and a value other than the zero value is not dropped: the
  empty key is written quoted, followed by \<open>=\<close> and the value.
\<close>

theorem C6_counterexample:
  "map_option buf
     (appendAttr 1 sampleLib plainHandler emptyState (Attr [] (StringValue ''v'')) [] nilSlice)
   = Some ([CHR 0x22, CHR 0x22] @ ''=v '')"
  by (simp add: appendAttr_unfold rewritten_def rewriteCalls_def resolved_def EqualZero_def
      plainHandler_simps leafText_def appendKey_text appendString_def
      needsQuoting_def runeLoop_ascii plainByte_def AppendQuote_def WriteString_def)

lemma str_empty: "appendString tbl [] [] True = [CHR 0x22, CHR 0x22]"
  by (simp add: appendString_def needsQuoting_def AppendQuote_def)

lemma str_group: "appendString tbl [] ''g.'' True = ''g.''"
  by (simp add: appendString_def needsQuoting_def runeLoop_ascii plainByte_def WriteString_def)

lemma str_v: "appendString tbl [] ''v'' True = ''v''"
  by (simp add: appendString_def needsQuoting_def runeLoop_ascii plainByte_def WriteString_def)

text \<open>
  Claim C6, amended. After resolving the value (and applying the rewrite callback to a
  non-group attribute, if one is configured), the attribute is dropped, with no output and
  no separator, when it is the zero attribute: its key is empty and its value is the zero
  value. An attribute that is not a group is dropped only then: every other one, whatever
  its key, is rendered as the group prefix followed by the key, quoted when
  \<open>needsQuoting\<close> says so, then \<open>=\<close>, the value (for an error value its message), and the
  separator, with the modes of a key and value or of an error when color is enabled. So
  the empty key with the value \<open>v\<close> is written as \<open>""=v\<close> under the empty prefix and as
  \<open>g.=v\<close> under the prefix of the group \<open>g\<close>. (A group is flattened into its
  attributes.)
\<close>

theorem C6_dropped_when_zero:
  "EqualZero x = (Key x = [] \<and> Value x = AnyValue NilAny)
   \<and> (let G = elems (heap s) g; a' = rewritten h G a in
        (EqualZero a' \<longrightarrow>
           appendAttr (Suc n) E h s a p g = Some (s\<lparr>calls := calls s @ rewriteCalls h G a\<rparr>))
        \<and> (\<not> EqualZero a' \<and> Kind_of (Value a') \<noteq> KindGroup \<longrightarrow>
           appendAttr (Suc n) E h s a p g
           = Some (s\<lparr>buf := buf s
                      @ (case asError (Value a') of
                           None \<Rightarrow>
                             (if noColor h then [] else ansiFaint)
                             @ appendString (printTable E) [] (p @ Key a') True @ ''=''
                             @ (if noColor h then [] else ansiReset)
                             @ appendValue E h [] (Value a') True
                         | Some msg \<Rightarrow>
                             (if noColor h then [] else ansiBrightRedFaint)
                             @ appendString (printTable E) [] (p @ Key a') True @ ''=''
                             @ (if noColor h then [] else ansiResetFaint)
                             @ appendString (printTable E) [] msg True
                             @ (if noColor h then [] else ansiReset))
                      @ '' '',
                    calls := calls s @ rewriteCalls h G a\<rparr>)))
   \<and> appendString (printTable E) [] [] True = [CHR 0x22, CHR 0x22]
   \<and> appendString (printTable E) [] ''g.'' True = ''g.''"
proof -
  have v: "appendValue E h (b @ c) v True = b @ c @ appendValue E h [] v True" for b c v
    by (subst appendValue_app) simp
  show ?thesis
    by (simp add: Let_def appendAttr_unfold leafText_def appendKey_text appendError_text v
          EqualZero_def str_empty str_group del: appendValue.simps split: option.splits)
qed

theorem C6_dropped_when_zero_witness:
  "EqualZero (rewritten (plainHandler\<lparr>replaceAttr := Some dropSecret\<rparr>) []
                (Attr ''secret'' (StringValue ''x'')))
   \<and> appendAttr 1 sampleLib (plainHandler\<lparr>replaceAttr := Some dropSecret\<rparr>) emptyState
        (Attr ''secret'' (StringValue ''x'')) [] nilSlice
      = Some (emptyState\<lparr>calls := [([], Attr ''secret'' (StringValue ''x''))]\<rparr>)
   \<and> \<not> EqualZero (rewritten plainHandler [] (Attr [] (StringValue ''v'')))
   \<and> Kind_of (Value (rewritten plainHandler [] (Attr [] (StringValue ''v'')))) \<noteq> KindGroup
   \<and> appendAttr 1 sampleLib plainHandler emptyState (Attr [] (StringValue ''v'')) [] nilSlice
      = Some (emptyState\<lparr>buf := [CHR 0x22, CHR 0x22] @ ''=v ''\<rparr>)
   \<and> appendAttr 1 sampleLib plainHandler emptyState (Attr [] (StringValue ''v'')) ''g.'' nilSlice
      = Some (emptyState\<lparr>buf := ''g.=v ''\<rparr>)"
proof -
  let ?h = "plainHandler\<lparr>replaceAttr := Some dropSecret\<rparr>"
  have z: "EqualZero (rewritten ?h [] (Attr ''secret'' (StringValue ''x'')))"
    by (simp add: rewritten_def resolved_def dropSecret_def EqualZero_def)
  have c: "rewriteCalls ?h [] (Attr ''secret'' (StringValue ''x''))
           = [([], Attr ''secret'' (StringValue ''x''))]"
    by (simp add: rewriteCalls_def resolved_def)
  have r: "rewritten plainHandler [] (Attr [] (StringValue ''v'')) = Attr [] (StringValue ''v'')"
    "rewriteCalls plainHandler [] (Attr [] (StringValue ''v'')) = []"
    by (simp_all add: rewritten_def rewriteCalls_def resolved_def plainHandler_simps)
  have nz: "\<not> EqualZero (rewritten plainHandler [] (Attr [] (StringValue ''v'')))"
    "Kind_of (Value (rewritten plainHandler [] (Attr [] (StringValue ''v'')))) \<noteq> KindGroup"
    by (simp_all add: r EqualZero_def)
  show ?thesis
    using z c nz
      C6_dropped_when_zero [where h = ?h and g = nilSlice and a = "Attr ''secret'' (StringValue ''x'')"
        and n = 0 and E = sampleLib and s = emptyState and p = "[]"]
      C6_dropped_when_zero [where h = plainHandler and g = nilSlice and a = "Attr [] (StringValue ''v'')"
        and n = 0 and E = sampleLib and s = emptyState and p = "[]"]
      C6_dropped_when_zero [where h = plainHandler and g = nilSlice and a = "Attr [] (StringValue ''v'')"
        and n = 0 and E = sampleLib and s = emptyState and p = "''g.''"]
    by (simp add: Let_def r plainHandler_simps str_v sampleLib_def)
qed

text \<open>
  An attribute whose value fails to marshal still produces output: its key, \<open>=\<close> and the
  separator.
\<close>

theorem C7_counterexample:
  "map_option buf
     (appendAttr 1 sampleLib plainHandler emptyState (Attr ''k'' failingMarshal) [] nilSlice)
   = Some ''k= ''"
  by (simp add: appendAttr_unfold rewritten_def rewriteCalls_def resolved_def EqualZero_def
      plainHandler_simps leafText_def appendKey_text appendString_def
      needsQuoting_def runeLoop_ascii plainByte_def WriteString_def failingMarshal_def)

text \<open>
  Claim C7, amended. When \<open>MarshalText\<close> fails, \<open>appendValue\<close> appends nothing for the
  value; the attribute (on a handler without rewrite callback, the value not an \<open>error\<close>)
  is rendered as its key, \<open>=\<close>, an empty value and the separator. The error \<open>Handle\<close>
  returns is the one of the sink's \<open>Write\<close>, or none when nothing was written: the marshal
  failure is not propagated.
\<close>

theorem C7_marshal_failure_suppressed:
  "appendValue E h b (AnyValue (Other (x\<lparr>MarshalText := Some (Inl e)\<rparr>))) q = b
   \<and> appendAttr (Suc n) E (h\<lparr>replaceAttr := None\<rparr>) s
        (Attr k (AnyValue (Other (x\<lparr>Error := None, MarshalText := Some (Inl e)\<rparr>)))) p g
      = Some (s\<lparr>buf := buf s @ appendKey E h [] (p @ k) [] @ '' ''\<rparr>)
   \<and> (Handle m E M h out r = Some res \<longrightarrow>
        err res = (case written res of None \<Rightarrow> None | Some line \<Rightarrow> snd (w h out line)))"
proof -
  have 1: "appendValue E h b (AnyValue (Other (x\<lparr>MarshalText := Some (Inl e)\<rparr>))) q = b"
    by simp
  have 2: "appendAttr (Suc n) E (h\<lparr>replaceAttr := None\<rparr>) s
        (Attr k (AnyValue (Other (x\<lparr>Error := None, MarshalText := Some (Inl e)\<rparr>)))) p g
      = Some (s\<lparr>buf := buf s @ appendKey E h [] (p @ k) [] @ '' ''\<rparr>)"
    by (simp add: appendAttr_unfold rewritten_def rewriteCalls_def resolved_def EqualZero_def
        leafText_def appendKey_text)
  have 3: "Handle m E M h out r = Some res \<longrightarrow>
        err res = (case written res of None \<Rightarrow> None | Some line \<Rightarrow> snd (w h out line))"
    by (auto simp add: Handle_eq split: option.splits if_splits)
  show ?thesis using 1 2 3 by blast
qed

theorem C7_marshal_failure_suppressed_witness:
  "Handle 1 sampleLib [] plainHandler []
      \<lparr>Time = noTime, Message = ''m'', Level = LevelInfo, PC = 0, Attrs = [Attr ''k'' failingMarshal]\<rparr>
    = Some \<lparr>sink = ''INF m k='' @ [CHR 0x0A], err = None,
            written = Some (''INF m k='' @ [CHR 0x0A]), invoked = [], store = []\<rparr>
   \<and> err \<lparr>sink = ''INF m k='' @ [CHR 0x0A], err = None,
            written = Some (''INF m k='' @ [CHR 0x0A]), invoked = [], store = []\<rparr>
      = snd (w plainHandler [] (''INF m k='' @ [CHR 0x0A]))"
proof -
  let ?r = "\<lparr>Time = noTime, Message = ''m'', Level = LevelInfo, PC = 0, Attrs = [Attr ''k'' failingMarshal]\<rparr>"
  let ?o = "\<lparr>sink = ''INF m k='' @ [CHR 0x0A], err = None,
            written = Some (''INF m k='' @ [CHR 0x0A]), invoked = [], store = []\<rparr>"
  have h: "Handle 1 sampleLib [] plainHandler [] ?r = Some ?o"
    by (simp add: Handle_eq render_def newBuffer_def writeTime_zero noTime_def IsZero_def
      writeLevel_plain writeSource_off writeMessage_plain plainHandler_simps level_INF
      appendAttr_unfold rewritten_def rewriteCalls_def resolved_def failingMarshal_def EqualZero_def
      leafText_def appendKey_text appendString_def needsQuoting_def runeLoop_ascii plainByte_def
      WriteString_def sampleWriter_def)
  show ?thesis
    using h C7_marshal_failure_suppressed [where m = 1 and E = sampleLib and h = plainHandler
        and M = "[]" and out = "[]" and r = ?r and res = ?o]
    by simp
qed

section \<open>Decoding UTF-8\<close>

lemma DecodeRune_cases [consumes 1, case_names ascii invalid two three four]:
  assumes "s \<noteq> []"
  obtains
    (ascii) c0 cs where "s = c0 # cs" "(of_char c0 :: nat) < 0x80" "DecodeRune s = (of_char c0, 1)"
  | (invalid) c0 cs where "s = c0 # cs" "0x80 \<le> (of_char c0 :: nat)" "DecodeRune s = (RuneError, 1)"
  | (two) c0 c1 cs where "s = c0 # c1 # cs"
      "0xC2 \<le> (of_char c0 :: nat)" "(of_char c0 :: nat) \<le> 0xDF"
      "0x80 \<le> (of_char c1 :: nat)" "(of_char c1 :: nat) \<le> 0xBF"
      "DecodeRune s = ((of_char c0 mod 32) * 64 + of_char c1 mod 64, 2)"
  | (three) c0 c1 c2 cs where "s = c0 # c1 # c2 # cs"
      "0xE0 \<le> (of_char c0 :: nat)" "(of_char c0 :: nat) \<le> 0xEF"
      "(if (of_char c0 :: nat) = 0xE0 then 0xA0 else 0x80) \<le> (of_char c1 :: nat)"
      "(of_char c1 :: nat) \<le> (if (of_char c0 :: nat) = 0xED then 0x9F else 0xBF)"
      "0x80 \<le> (of_char c2 :: nat)" "(of_char c2 :: nat) \<le> 0xBF"
      "DecodeRune s = ((of_char c0 mod 16) * 4096 + (of_char c1 mod 64) * 64 + of_char c2 mod 64, 3)"
  | (four) c0 c1 c2 c3 cs where "s = c0 # c1 # c2 # c3 # cs"
      "0xF0 \<le> (of_char c0 :: nat)" "(of_char c0 :: nat) \<le> 0xF4"
      "(if (of_char c0 :: nat) = 0xF0 then 0x90 else 0x80) \<le> (of_char c1 :: nat)"
      "(of_char c1 :: nat) \<le> (if (of_char c0 :: nat) = 0xF4 then 0x8F else 0xBF)"
      "0x80 \<le> (of_char c2 :: nat)" "(of_char c2 :: nat) \<le> 0xBF"
      "0x80 \<le> (of_char c3 :: nat)" "(of_char c3 :: nat) \<le> 0xBF"
      "DecodeRune s = ((of_char c0 mod 8) * 262144 + (of_char c1 mod 64) * 4096
                        + (of_char c2 mod 64) * 64 + of_char c3 mod 64, 4)"
proof -
  from assms obtain c0 cs where s: "s = c0 # cs" by (cases s) auto
  let ?b0 = "of_char c0 :: nat"
  consider (a) "?b0 < 0x80" | (i) "0x80 \<le> ?b0" "?b0 < 0xC2 \<or> 0xF4 < ?b0"
    | (t2) "0xC2 \<le> ?b0" "?b0 < 0xE0" | (t3) "0xE0 \<le> ?b0" "?b0 < 0xF0"
    | (t4) "0xF0 \<le> ?b0" "?b0 \<le> 0xF4"
    by linarith
  then show thesis
  proof cases
    case a
    then show ?thesis using ascii [of c0 cs] s by (simp add: DecodeRune.simps)
  next
    case i
    then show ?thesis using invalid [of c0 cs] s by (auto simp add: DecodeRune.simps Let_def)
  next
    case t2
    show ?thesis
    proof (cases cs)
      case Nil
      then show ?thesis using invalid [of c0 cs] s t2 by (simp add: DecodeRune.simps Let_def)
    next
      case (Cons c1 cs1)
      show ?thesis
      proof (cases "0x80 \<le> (of_char c1 :: nat) \<and> (of_char c1 :: nat) \<le> 0xBF")
        case True
        then show ?thesis
          using two [of c0 c1 cs1] s t2 Cons by (simp add: DecodeRune.simps Let_def)
      next
        case False
        then show ?thesis
          using invalid [of c0 cs] s t2 Cons by (auto simp add: DecodeRune.simps Let_def)
      qed
    qed
  next
    case t3
    let ?lo = "(if ?b0 = 0xE0 then 0xA0 else 0x80) :: nat"
    let ?hi = "(if ?b0 = 0xED then 0x9F else 0xBF) :: nat"
    show ?thesis
    proof (cases cs)
      case Nil
      then show ?thesis using invalid [of c0 cs] s t3 by (simp add: DecodeRune.simps Let_def)
    next
      case c1: (Cons c1 cs1)
      show ?thesis
      proof (cases cs1)
        case Nil
        then show ?thesis using invalid [of c0 cs] s t3 c1 by (simp add: DecodeRune.simps Let_def)
      next
        case c2: (Cons c2 cs2)
        show ?thesis
        proof (cases "?lo \<le> (of_char c1 :: nat) \<and> (of_char c1 :: nat) \<le> ?hi
                      \<and> 0x80 \<le> (of_char c2 :: nat) \<and> (of_char c2 :: nat) \<le> 0xBF")
          case True
          then show ?thesis
            using three [of c0 c1 c2 cs2] s t3 c1 c2
            by (simp add: DecodeRune.simps Let_def split: if_splits)
        next
          case False
          then show ?thesis
            using invalid [of c0 cs] s t3 c1 c2
            by (auto simp add: DecodeRune.simps Let_def split: if_splits)
        qed
      qed
    qed
  next
    case t4
    let ?lo = "(if ?b0 = 0xF0 then 0x90 else 0x80) :: nat"
    let ?hi = "(if ?b0 = 0xF4 then 0x8F else 0xBF) :: nat"
    show ?thesis
    proof (cases cs)
      case Nil
      then show ?thesis using invalid [of c0 cs] s t4 by (simp add: DecodeRune.simps Let_def)
    next
      case c1: (Cons c1 cs1)
      show ?thesis
      proof (cases cs1)
        case Nil
        then show ?thesis using invalid [of c0 cs] s t4 c1 by (simp add: DecodeRune.simps Let_def)
      next
        case c2: (Cons c2 cs2)
        show ?thesis
        proof (cases cs2)
          case Nil
          then show ?thesis
            using invalid [of c0 cs] s t4 c1 c2 by (simp add: DecodeRune.simps Let_def)
        next
          case c3: (Cons c3 cs3)
          show ?thesis
          proof (cases "?lo \<le> (of_char c1 :: nat) \<and> (of_char c1 :: nat) \<le> ?hi
                      \<and> 0x80 \<le> (of_char c2 :: nat) \<and> (of_char c2 :: nat) \<le> 0xBF
                      \<and> 0x80 \<le> (of_char c3 :: nat) \<and> (of_char c3 :: nat) \<le> 0xBF")
            case True
            then show ?thesis
              using four [of c0 c1 c2 c3 cs3] s t4 c1 c2 c3
              by (simp add: DecodeRune.simps Let_def split: if_splits)
          next
            case False
            then show ?thesis
              using invalid [of c0 cs] s t4 c1 c2 c3
              by (auto simp add: DecodeRune.simps Let_def split: if_splits)
          qed
        qed
      qed
    qed
  qed
qed

section \<open>Time values\<close>

lemma runeLoop_step:
  "s \<noteq> [] \<Longrightarrow> DecodeRune s = (r, k) \<Longrightarrow>
   runeLoop tbl s = (IsSpace r \<or> r = 0x22 \<or> r = 0x3D \<or> \<not> IsPrint tbl r \<or> runeLoop tbl (drop k s))"
  by (subst runeLoop.simps) auto

lemma runeLoop_finds_ascii:
  "c \<in> set s \<Longrightarrow> (of_char c :: nat) < 0x80 \<Longrightarrow> \<not> plainByte c \<Longrightarrow> runeLoop tbl s"
proof (induction s rule: length_induct)
  case (1 s)
  then have ne: "s \<noteq> []" by auto
  have IH: "runeLoop tbl t" if "length t < length s" "c \<in> set t" for t
    using 1 that by blast
  from ne show ?case
  proof (cases rule: DecodeRune_cases)
    case (ascii c0 cs)
    show ?thesis
    proof (cases "c = c0")
      case True
      then show ?thesis using ascii 1 by (simp add: runeLoop_ascii)
    next
      case False
      then have "c \<in> set cs" using 1 ascii by simp
      then have "runeLoop tbl cs" using IH [of cs] ascii by simp
      then show ?thesis using ascii by (simp add: runeLoop_ascii)
    qed
  next
    case (invalid c0 cs)
    then have "c \<noteq> c0" using 1 by auto
    then have "c \<in> set cs" using 1 invalid by simp
    then have "runeLoop tbl cs" using IH [of cs] invalid by simp
    then show ?thesis using runeLoop_step [OF ne invalid(3)] invalid by simp
  next
    case (two c0 c1 cs)
    then have "c \<noteq> c0" "c \<noteq> c1" using 1 by auto
    then have "c \<in> set cs" using 1 two by simp
    then have "runeLoop tbl cs" using IH [of cs] two by simp
    then show ?thesis using runeLoop_step [OF ne two(6)] two by simp
  next
    case (three c0 c1 c2 cs)
    then have "c \<noteq> c0" "c \<noteq> c1" "c \<noteq> c2" using 1 by (auto split: if_splits)
    then have "c \<in> set cs" using 1 three by simp
    then have "runeLoop tbl cs" using IH [of cs] three by simp
    then show ?thesis using runeLoop_step [OF ne three(8)] three by simp
  next
    case (four c0 c1 c2 c3 cs)
    then have "c \<noteq> c0" "c \<noteq> c1" "c \<noteq> c2" "c \<noteq> c3" using 1 by (auto split: if_splits)
    then have "c \<in> set cs" using 1 four by simp
    then have "runeLoop tbl cs" using IH [of cs] four by simp
    then show ?thesis using runeLoop_step [OF ne four(10)] four by simp
  qed
qed

lemma needsQuoting_space: "CHR '' '' \<in> set s \<Longrightarrow> needsQuoting tbl s"
  using runeLoop_finds_ascii [of "CHR '' ''" s tbl]
  by (simp add: needsQuoting_def plainByte_def)

lemma appendTime_text:
  "appendTime E h b t =
     b @ (if noColor h then [] else ansiFaint) @ timeFormatted E t (timeFormat h)
       @ (if noColor h then [] else ansiReset)"
  by (simp add: appendTime_def WriteStringIf_app)

lemma writeTime_plain:
  "replaceAttr h = None \<Longrightarrow> \<not> IsZero (Time r) \<Longrightarrow>
   writeTime E h s r = s\<lparr>buf := buf s @ appendTime E h [] (Time r) @ '' ''\<rparr>"
  by (simp add: writeTime_def WriteChar_def appendTime_app [of E h "buf s"])

definition someTime :: time where
  "someTime = \<lparr>sec = 63839750400, nsec = 0, monotonic = None, loc = ''UTC''\<rparr>"

text \<open>
  Claim C9. The value renderer writes a value of kind Time as \<open>Time.String()\<close>, through
  \<open>appendString\<close>, whatever the handler's \<open>timeFormat\<close> is; so does an attribute of
  kind Time (shown on a handler without rewrite callback). When that representation
  contains a space, the value is written in double quotes whenever quoting is enabled.
  \<open>appendTime\<close>, which \<open>Handle\<close> uses for the record's time stamp, formats with
  \<open>timeFormat\<close>.
\<close>

theorem C9_time_values_use_default_format:
  "appendValue E h b (TimeValue t) q = appendString (printTable E) b (timeString E t) q
   \<and> appendValue E (h\<lparr>timeFormat := layout\<rparr>) b (TimeValue t) q = appendValue E h b (TimeValue t) q
   \<and> appendAttr (Suc n) E (h\<lparr>replaceAttr := None\<rparr>) s (Attr k (TimeValue t)) p g
      = Some (s\<lparr>buf := buf s @ appendKey E h [] (p @ k) []
                 @ appendString (printTable E) [] (timeString E t) True @ '' ''\<rparr>)
   \<and> (CHR '' '' \<in> set (timeString E t) \<longrightarrow>
        appendValue E h b (TimeValue t) True
        = b @ [CHR 0x22] @ quoteLoop (printTable E) (timeString E t) @ [CHR 0x22])
   \<and> appendTime E h b t
      = b @ (if noColor h then [] else ansiFaint) @ timeFormatted E t (timeFormat h)
          @ (if noColor h then [] else ansiReset)
   \<and> (\<not> IsZero (Time r) \<longrightarrow>
        writeTime E (h\<lparr>replaceAttr := None\<rparr>) s r
        = s\<lparr>buf := buf s @ appendTime E h [] (Time r) @ '' ''\<rparr>)"
proof -
  have 3: "appendAttr (Suc n) E (h\<lparr>replaceAttr := None\<rparr>) s (Attr k (TimeValue t)) p g
      = Some (s\<lparr>buf := buf s @ appendKey E h [] (p @ k) []
                 @ appendString (printTable E) [] (timeString E t) True @ '' ''\<rparr>)"
    by (simp add: appendAttr_unfold rewritten_def rewriteCalls_def resolved_def EqualZero_def
        leafText_def appendKey_text appendString_app [of _ "_ @ _"])
  have 4: "CHR '' '' \<in> set (timeString E t) \<longrightarrow>
        appendValue E h b (TimeValue t) True
        = b @ [CHR 0x22] @ quoteLoop (printTable E) (timeString E t) @ [CHR 0x22]"
    by (simp add: appendString_def needsQuoting_space AppendQuote_def)
  have 6: "\<not> IsZero (Time r) \<longrightarrow>
        writeTime E (h\<lparr>replaceAttr := None\<rparr>) s r
        = s\<lparr>buf := buf s @ appendTime E h [] (Time r) @ '' ''\<rparr>"
    by (simp add: writeTime_plain appendTime_text)
  show ?thesis
    using 3 4 6 by (simp add: appendTime_text)
qed

theorem C9_time_values_use_default_format_witness:
  "CHR '' '' \<in> set (timeString sampleLib someTime)
   \<and> appendValue sampleLib plainHandler [] (TimeValue someTime) True
      = [CHR 0x22] @ ''2024-01-01 12:00:00 +0000 UTC'' @ [CHR 0x22]
   \<and> \<not> IsZero someTime
   \<and> buf (writeTime sampleLib plainHandler emptyState
        \<lparr>Time = someTime, Message = ''m'', Level = LevelInfo, PC = 0, Attrs = []\<rparr>)
      = ''12:00:00.000 ''"
proof -
  have sp: "CHR '' '' \<in> set (timeString sampleLib someTime)"
    by (simp add: sampleLib_def)
  have nz: "\<not> IsZero someTime"
    by (simp add: IsZero_def someTime_def)
  have q: "quoteLoop (printTable sampleLib) (timeString sampleLib someTime)
           = ''2024-01-01 12:00:00 +0000 UTC''"
    by (simp add: sampleLib_def quoteLoop_ascii_print)
  have h: "plainHandler\<lparr>replaceAttr := None\<rparr> = plainHandler"
    by (simp add: plainHandler_def NewHandler_def)
  show ?thesis
    using sp nz q
      C9_time_values_use_default_format [where E = sampleLib and h = plainHandler and b = "[]"
        and t = someTime and s = emptyState
        and r = "\<lparr>Time = someTime, Message = ''m'', Level = LevelInfo, PC = 0, Attrs = []\<rparr>"]
    by (simp add: h appendTime_text plainHandler_simps sampleLib_def emptyState_def)
qed

section \<open>The state threads through the attributes\<close>

text \<open>Rendering into a state is rendering into the start state of its memory and
  appending.\<close>

definition combine :: "state \<Rightarrow> state \<Rightarrow> state" where
  "combine s t = \<lparr>buf = buf s @ buf t, calls = calls s @ calls t, heap = heap t\<rparr>"

lemma combine_simps [simp]:
  "buf (combine s t) = buf s @ buf t" "calls (combine s t) = calls s @ calls t"
  "heap (combine s t) = heap t"
  by (simp_all add: combine_def)

lemma combine_assoc: "combine (combine s t) u = combine s (combine t u)"
  by (simp add: combine_def)

lemma combine_start [simp]: "combine s (startState (heap s)) = s" "combine (startState M) s = s"
  by (simp_all add: combine_def startState_def)

lemma appendAttrs_frame_from:
  assumes "\<And>s a p g. appendAttr n E h s a p g
             = map_option (combine s) (appendAttr n E h (startState (heap s)) a p g)"
  shows "appendAttrs n E h s as p g
         = map_option (combine s) (appendAttrs n E h (startState (heap s)) as p g)"
proof (induction as arbitrary: s)
  case Nil
  show ?case by simp
next
  case (Cons a as)
  show ?case
  proof (cases "appendAttr n E h (startState (heap s)) a p g")
    case None
    then show ?thesis using assms [of s a p g] by simp
  next
    case (Some t)
    let ?rest = "appendAttrs n E h (startState (heap t)) as p g"
    have "appendAttrs n E h s (a # as) p g = appendAttrs n E h (combine s t) as p g"
      using assms [of s a p g] Some by simp
    also have "\<dots> = map_option (combine (combine s t)) ?rest"
      using Cons.IH [of "combine s t"] by simp
    also have "\<dots> = map_option (combine s) (map_option (combine t) ?rest)"
      by (cases ?rest) (simp_all add: combine_assoc)
    also have "\<dots> = map_option (combine s) (appendAttrs n E h t as p g)"
      using Cons.IH [of t] by simp
    also have "\<dots> = map_option (combine s) (appendAttrs n E h (startState (heap s)) (a # as) p g)"
      using Some by simp
    finally show ?thesis .
  qed
qed

lemma appendAttr_frame:
  "appendAttr n E h s a p g = map_option (combine s) (appendAttr n E h (startState (heap s)) a p g)"
proof (induction n arbitrary: s a p g)
  case 0
  show ?case by simp
next
  case (Suc n)
  have fr: "appendAttrs n E h s' as p' g'
            = map_option (combine s') (appendAttrs n E h (startState (heap s')) as p' g')"
    for s' as p' g'
    by (rule appendAttrs_frame_from) (rule Suc.IH)
  let ?G = "elems (heap s) g"
  let ?a = "rewritten h ?G a"
  let ?cs = "rewriteCalls h ?G a"
  show ?case
  proof (cases "EqualZero ?a")
    case True
    then show ?thesis by (simp add: appendAttr_unfold combine_def)
  next
    case nz: False
    show ?thesis
    proof (cases "Kind_of (Value ?a) = KindGroup")
      case True
      let ?p = "pushPrefix p (Key ?a)"
      let ?M = "pushMemory E (heap s) g (Key ?a)"
      let ?g = "pushSlice E (heap s) g (Key ?a)"
      let ?X = "appendAttrs n E h (startState ?M) (children ?a) ?p ?g"
      have l: "appendAttr (Suc n) E h s a p g
               = map_option (combine (s\<lparr>calls := calls s @ ?cs, heap := ?M\<rparr>)) ?X"
        using nz True by (simp add: appendAttr_unfold) (subst fr, simp)
      have r: "appendAttr (Suc n) E h (startState (heap s)) a p g
               = map_option (combine ((startState (heap s))\<lparr>calls := ?cs, heap := ?M\<rparr>)) ?X"
        using nz True by (simp add: appendAttr_unfold) (subst fr, simp)
      show ?thesis
        unfolding l r by (cases ?X) (simp_all add: combine_def)
    next
      case False
      with nz show ?thesis
        by (simp add: appendAttr_unfold combine_def)
    qed
  qed
qed

lemma appendAttrs_frame:
  "appendAttrs n E h s as p g
   = map_option (combine s) (appendAttrs n E h (startState (heap s)) as p g)"
  by (rule appendAttrs_frame_from) (rule appendAttr_frame)

lemma appendAttrs_Cons_start:
  "appendAttrs n E h (startState M) (a # as) p g =
    (case appendAttr n E h (startState M) a p g of
       None \<Rightarrow> None
     | Some t \<Rightarrow> map_option (combine t) (appendAttrs n E h (startState (heap t)) as p g))"
  by (cases "appendAttr n E h (startState M) a p g") (simp_all add: appendAttrs_frame [symmetric])

lemma appendAttrs_Cons_Some:
  assumes "appendAttrs n E h (startState M) (a # as) p g = Some t"
  obtains t1 t2 where "appendAttr n E h (startState M) a p g = Some t1"
    "appendAttrs n E h (startState (heap t1)) as p g = Some t2" "t = combine t1 t2"
  using assms by (auto simp add: appendAttrs_Cons_start simp del: appendAttrs.simps
      split: option.splits)

lemma appendAttr_Suc_start:
  "appendAttr (Suc n) E h (startState M) a p g =
    (if EqualZero (rewritten h (elems M g) a)
     then Some \<lparr>buf = [], calls = rewriteCalls h (elems M g) a, heap = M\<rparr>
     else if Kind_of (Value (rewritten h (elems M g) a)) = KindGroup then
       map_option (combine \<lparr>buf = [], calls = rewriteCalls h (elems M g) a, heap = M\<rparr>)
         (appendAttrs n E h (startState (pushMemory E M g (Key (rewritten h (elems M g) a))))
            (children (rewritten h (elems M g) a))
            (pushPrefix p (Key (rewritten h (elems M g) a)))
            (pushSlice E M g (Key (rewritten h (elems M g) a))))
     else Some \<lparr>buf = leafText E h (p @ Key (rewritten h (elems M g) a))
                           (Value (rewritten h (elems M g) a)),
               calls = rewriteCalls h (elems M g) a, heap = M\<rparr>)"
proof -
  let ?a = "rewritten h (elems M g) a"
  let ?X = "appendAttrs n E h (startState (pushMemory E M g (Key ?a))) (children ?a)
              (pushPrefix p (Key ?a)) (pushSlice E M g (Key ?a))"
  have "appendAttrs n E h
          ((startState M)\<lparr>calls := rewriteCalls h (elems M g) a,
                            heap := pushMemory E M g (Key ?a)\<rparr>)
          (children ?a) (pushPrefix p (Key ?a))
          (pushSlice E M g (Key ?a))
        = map_option (combine \<lparr>buf = [], calls = rewriteCalls h (elems M g) a, heap = M\<rparr>) ?X"
    by (subst appendAttrs_frame) (cases ?X; simp add: combine_def startState_def)
  then show ?thesis
    by (simp add: appendAttr_unfold)
qed

lemma appendAttr_Suc_Some_cases:
  assumes "appendAttr (Suc n) E h (startState M) a p g = Some t"
  obtains (dropped) "EqualZero (rewritten h (elems M g) a)"
      "t = \<lparr>buf = [], calls = rewriteCalls h (elems M g) a, heap = M\<rparr>"
  | (grouped) t' where "\<not> EqualZero (rewritten h (elems M g) a)"
      "Kind_of (Value (rewritten h (elems M g) a)) = KindGroup"
      "appendAttrs n E h (startState (pushMemory E M g (Key (rewritten h (elems M g) a))))
         (children (rewritten h (elems M g) a))
         (pushPrefix p (Key (rewritten h (elems M g) a)))
         (pushSlice E M g (Key (rewritten h (elems M g) a))) = Some t'"
      "t = combine \<lparr>buf = [], calls = rewriteCalls h (elems M g) a, heap = M\<rparr> t'"
  | (leaf) "\<not> EqualZero (rewritten h (elems M g) a)"
      "Kind_of (Value (rewritten h (elems M g) a)) \<noteq> KindGroup"
      "t = \<lparr>buf = leafText E h (p @ Key (rewritten h (elems M g) a))
                      (Value (rewritten h (elems M g) a)),
            calls = rewriteCalls h (elems M g) a, heap = M\<rparr>"
  using assms by (auto simp add: appendAttr_Suc_start split: if_splits)

section \<open>Invocations of the rewrite callback\<close>

definition keepAttr :: "string list \<Rightarrow> Attr \<Rightarrow> Attr" where
  "keepAttr grps a = a"

lemma keys_nonempty: "TimeKey \<noteq> []" "LevelKey \<noteq> []" "SourceKey \<noteq> []" "MessageKey \<noteq> []"
  by (simp_all add: TimeKey_def LevelKey_def SourceKey_def MessageKey_def)

text \<open>A handler with a callback and the groups \<open>a\<close>, \<open>b\<close> and \<open>c\<close>, built by three calls of
  \<open>WithGroup\<close> in the memory without arrays, and the memory after them. The third call
  had to grow the group list from capacity 2, to capacity 4: one element is free.\<close>

definition abcHandler :: "memory \<times> string handler" where
  "abcHandler =
    (let (M, h) = WithGroup sampleLib [] (plainHandler\<lparr>replaceAttr := Some keepAttr\<rparr>) ''a'';
         (M, h) = WithGroup sampleLib M h ''b''
     in WithGroup sampleLib M h ''c'')"

lemma abcHandler_eq:
  "abcHandler =
    ([[''a''], [''a'', ''b''], [''a'', ''b'', ''c'', []]],
     plainHandler\<lparr>replaceAttr := Some keepAttr, groupPrefix := ''a.b.c.'',
                   groups := \<lparr>array = 2, len = 3, cap = 4\<rparr>\<rparr>)"
  by (simp add: abcHandler_def WithGroup_def appendSlice_def elems_def plainHandler_simps
      nilSlice_def sampleLib_def Let_def)

definition kvRecord :: Record where
  "kvRecord = \<lparr>Time = noTime, Message = ''served'', Level = LevelInfo, PC = 0,
               Attrs = [Attr ''k'' (StringValue ''v'')]\<rparr>"

definition groupRecord :: Record where
  "groupRecord = \<lparr>Time = noTime, Message = ''served'', Level = LevelInfo, PC = 0,
                  Attrs = [Attr ''g'' (GroupValue [Attr ''k'' (StringValue ''v'')])]\<rparr>"

lemma str_key_examples:
  "appendString tbl [] ''a.b.c.x.k'' True = ''a.b.c.x.k''"
  "appendString tbl [] ''a.b.c.g.k'' True = ''a.b.c.g.k''"
  "appendString tbl [] ''v'' True = ''v''"
  by (simp_all add: appendString_def needsQuoting_def runeLoop_ascii plainByte_def WriteString_def)

lemma Handle_kv:
  assumes "replaceAttr h = Some keepAttr" "noColor h" "attrsPrefix h = []"
    "groupPrefix h = ''a.b.c.x.''" "\<not> addSource h" "w h = sampleWriter"
  shows "Handle (Suc n) sampleLib M h [] kvRecord
   = Some \<lparr>sink = ''INF served a.b.c.x.k=v'' @ [CHR 0x0A], err = None,
           written = Some (''INF served a.b.c.x.k=v'' @ [CHR 0x0A]),
           invoked = [([], Attr LevelKey (AnyValue (LevelAny LevelInfo))),
                      ([], Attr MessageKey (StringValue ''served'')),
                      (elems M (groups h), Attr ''k'' (StringValue ''v''))],
           store = M\<rparr>"
  using assms
  by (simp add: Handle_eq render_def newBuffer_def writeTime_zero kvRecord_def noTime_def
      IsZero_def writeLevel_def writeSource_off writeMessage_def callRep_def keepAttr_def
      appendLevel_text sint_Info levelLabel_def levelReference_def deltaText_def
      WriteChar_def WriteString_def
      appendAttr_unfold rewritten_def rewriteCalls_def resolved_def EqualZero_def
      leafText_def appendKey_text appendString_def needsQuoting_def runeLoop_ascii plainByte_def
      sampleWriter_def keys_nonempty Let_def)

text \<open>
  Claim C10 fails on the code. \<open>WithGroup\<close> appends to a copy of the header of the
  receiver's group list, so two handlers derived from one handler write their names into
  the same element of the shared array when it has room. Derive \<open>x\<close> and then \<open>y\<close> from
  the handler with the groups \<open>a\<close>, \<open>b\<close>, \<open>c\<close>. Before \<open>y\<close> is derived, the handler
  \<open>x\<close> writes the attribute under the key \<open>a.b.c.x.k\<close> and invokes the callback with the
  groups \<open>a\<close>, \<open>b\<close>, \<open>c\<close>, \<open>x\<close>; afterwards it still writes \<open>a.b.c.x.k\<close>, but invokes
  the callback with \<open>a\<close>, \<open>b\<close>, \<open>c\<close>, \<open>y\<close>. The same happens after the handler it was
  derived from has handled a record with a group \<open>g\<close>: the callback receives \<open>a\<close>, \<open>b\<close>,
  \<open>c\<close>, \<open>g\<close>. The reserved attributes are passed with the empty list throughout.
\<close>

theorem C10_group_list_is_shared:
  "(let (M0, h) = abcHandler;
        (M1, hx) = WithGroup sampleLib M0 h ''x'';
        (M2, hy) = WithGroup sampleLib M1 h ''y'';
        M3 = (case Handle 2 sampleLib M1 h [] groupRecord of Some res \<Rightarrow> store res | None \<Rightarrow> M1)
    in [(map_option written (Handle 1 sampleLib M1 hx [] kvRecord),
         map_option invoked (Handle 1 sampleLib M1 hx [] kvRecord)),
        (map_option written (Handle 1 sampleLib M2 hx [] kvRecord),
         map_option invoked (Handle 1 sampleLib M2 hx [] kvRecord)),
        (map_option written (Handle 1 sampleLib M3 hx [] kvRecord),
         map_option invoked (Handle 1 sampleLib M3 hx [] kvRecord))])
   = [(Some (Some (''INF served a.b.c.x.k=v'' @ [CHR 0x0A])),
       Some [([], Attr LevelKey (AnyValue (LevelAny LevelInfo))),
             ([], Attr MessageKey (StringValue ''served'')),
             ([''a'', ''b'', ''c'', ''x''], Attr ''k'' (StringValue ''v''))]),
      (Some (Some (''INF served a.b.c.x.k=v'' @ [CHR 0x0A])),
       Some [([], Attr LevelKey (AnyValue (LevelAny LevelInfo))),
             ([], Attr MessageKey (StringValue ''served'')),
             ([''a'', ''b'', ''c'', ''y''], Attr ''k'' (StringValue ''v''))]),
      (Some (Some (''INF served a.b.c.x.k=v'' @ [CHR 0x0A])),
       Some [([], Attr LevelKey (AnyValue (LevelAny LevelInfo))),
             ([], Attr MessageKey (StringValue ''served'')),
             ([''a'', ''b'', ''c'', ''g''], Attr ''k'' (StringValue ''v''))])]"
proof -
  let ?h = "plainHandler\<lparr>replaceAttr := Some keepAttr, groupPrefix := ''a.b.c.'',
                   groups := \<lparr>array = 2, len = 3, cap = 4\<rparr>\<rparr>"
  let ?hx = "plainHandler\<lparr>replaceAttr := Some keepAttr, groupPrefix := ''a.b.c.x.'',
                   groups := \<lparr>array = 2, len = 4, cap = 4\<rparr>\<rparr>"
  let ?hy = "plainHandler\<lparr>replaceAttr := Some keepAttr, groupPrefix := ''a.b.c.y.'',
                   groups := \<lparr>array = 2, len = 4, cap = 4\<rparr>\<rparr>"
  let ?M0 = "[[''a''], [''a'', ''b''], [''a'', ''b'', ''c'', []]]"
  let ?M1 = "[[''a''], [''a'', ''b''], [''a'', ''b'', ''c'', ''x'']]"
  let ?M2 = "[[''a''], [''a'', ''b''], [''a'', ''b'', ''c'', ''y'']]"
  let ?M3 = "[[''a''], [''a'', ''b''], [''a'', ''b'', ''c'', ''g'']]"
  have x: "WithGroup sampleLib ?M0 ?h ''x'' = (?M1, ?hx)"
    by (simp add: WithGroup_def appendSlice_def)
  have y: "WithGroup sampleLib ?M1 ?h ''y'' = (?M2, ?hy)"
    by (simp add: WithGroup_def appendSlice_def)
  have g: "map_option store (Handle 2 sampleLib ?M1 ?h [] groupRecord) = Some ?M3"
    by (simp add: Handle_eq render_def newBuffer_def writeTime_zero groupRecord_def noTime_def
      IsZero_def writeLevel_def writeSource_off writeMessage_def callRep_def keepAttr_def
      appendLevel_text sint_Info levelLabel_def levelReference_def deltaText_def
      WriteChar_def WriteString_def plainHandler_simps eval_nat_numeral
      appendAttr_unfold rewritten_def rewriteCalls_def resolved_def EqualZero_def
      pushMemory_def pushSlice_def pushPrefix_def children_def appendSlice_def elems_def
      leafText_def appendKey_text str_key_examples
      sampleWriter_def keys_nonempty Let_def)
  have hx: "replaceAttr ?hx = Some keepAttr" "noColor ?hx" "attrsPrefix ?hx = []"
    "groupPrefix ?hx = ''a.b.c.x.''" "\<not> addSource ?hx" "w ?hx = sampleWriter"
    by (simp_all add: plainHandler_simps)
  from g obtain res where
    res: "Handle 2 sampleLib ?M1 ?h [] groupRecord = Some res" "store res = ?M3"
    by auto
  show ?thesis
    by (simp add: abcHandler_eq x y res Handle_kv [OF hx] elems_def Let_def)
qed

section \<open>Group flattening\<close>

lemma resolveLoop_size: "resolveLoop n v = Some rv \<Longrightarrow> size rv \<le> size v"
  by (induction n v rule: resolveLoop.induct) auto

lemma Resolve_group_size:
  assumes "Resolve v = GroupValue as" "x \<in> set as"
  shows "size x < size v"
proof -
  from assms(1) have "resolveLoop maxLogValues v = Some (GroupValue as)"
    by (auto simp add: Resolve_def tooManyTimes_def Let_def split: option.splits)
  then have "size (GroupValue as) \<le> size v"
    by (rule resolveLoop_size)
  moreover have "size x < size (GroupValue as)"
    using assms(2) by (induction as) auto
  ultimately show ?thesis by simp
qed

text \<open>
  The flattening as the specification describes it: the leaves of an attribute, each with
  its dotted key and resolved value, in order. The zero attribute has no leaves.
\<close>

function flatten :: "string \<Rightarrow> Attr \<Rightarrow> (string \<times> val) list" where
  "flatten prefix a =
    (if EqualZero (resolved a) then []
     else case Resolve (Value a) of
       GroupValue as \<Rightarrow>
         concat (map (flatten (if Key a \<noteq> [] then prefix @ Key a @ ''.'' else prefix)) as)
     | v \<Rightarrow> [(prefix @ Key a, v)])"
  by pat_completeness auto
termination
proof (relation "measure (\<lambda>(prefix, a). size a)")
  fix prefix :: string and a :: Attr and as x
  assume "Resolve (Value a) = GroupValue as" "x \<in> set as"
  then have "size x < size (Value a)" by (rule Resolve_group_size)
  also have "size (Value a) < size a" by (cases a) simp
  finally show "((if Key a \<noteq> [] then prefix @ Key a @ ''.'' else prefix, x), (prefix, a))
                \<in> measure (\<lambda>(prefix, a). size a)"
    by simp
qed simp

declare flatten.simps [simp del]

definition leavesText :: "stdlib \<Rightarrow> 'w handler \<Rightarrow> (string \<times> val) list \<Rightarrow> string" where
  "leavesText E h kvs = concat (map (\<lambda>(k, v). leafText E h k v) kvs)"

lemma leavesText_simps [simp]:
  "leavesText E h [] = []"
  "leavesText E h ((k, v) # kvs) = leafText E h k v @ leavesText E h kvs"
  "leavesText E h (xs @ ys) = leavesText E h xs @ leavesText E h ys"
  by (simp_all add: leavesText_def)

lemma leavesText_concat:
  "leavesText E h (concat xss) = concat (map (leavesText E h) xss)"
  by (induction xss) simp_all

lemma rewritten_None: "replaceAttr h = None \<Longrightarrow> rewritten h g a = resolved a"
  by (simp add: rewritten_def)

lemma rewriteCalls_None: "replaceAttr h = None \<Longrightarrow> rewriteCalls h g a = []"
  by (simp add: rewriteCalls_def)

lemma appendAttrs_flatten_from:
  assumes "\<And>a p g M. size a < n \<Longrightarrow>
             \<exists>M'. appendAttr n E h (startState M) a p g
                   = Some \<lparr>buf = leavesText E h (flatten p a), calls = [], heap = M'\<rparr>"
  shows "\<forall>x\<in>set as. size x < n \<Longrightarrow>
         \<exists>M'. appendAttrs n E h (startState M) as p g
               = Some \<lparr>buf = concat (map (\<lambda>x. leavesText E h (flatten p x)) as), calls = [],
                       heap = M'\<rparr>"
proof (induction as arbitrary: M)
  case Nil
  show ?case by (simp add: startState_def)
next
  case (Cons a as)
  from Cons.prems assms [of a M p g] obtain M1 where
    a: "appendAttr n E h (startState M) a p g
        = Some \<lparr>buf = leavesText E h (flatten p a), calls = [], heap = M1\<rparr>"
    by auto
  from Cons.prems Cons.IH [of M1] obtain M2 where
    as: "appendAttrs n E h (startState M1) as p g
         = Some \<lparr>buf = concat (map (\<lambda>x. leavesText E h (flatten p x)) as), calls = [],
                 heap = M2\<rparr>"
    by auto
  show ?case
    by (simp add: appendAttrs_Cons_start a as combine_def del: appendAttrs.simps)
qed

lemma appendAttr_flatten_start:
  assumes "replaceAttr h = None"
  shows "size a < n \<Longrightarrow>
         \<exists>M'. appendAttr n E h (startState M) a p g
               = Some \<lparr>buf = leavesText E h (flatten p a), calls = [], heap = M'\<rparr>"
proof (induction n arbitrary: a p g M)
  case 0
  then show ?case by simp
next
  case (Suc n)
  note rw = rewritten_None [OF assms] rewriteCalls_None [OF assms]
  show ?case
  proof (cases "EqualZero (resolved a)")
    case True
    then show ?thesis
      by (simp add: appendAttr_Suc_start rw flatten.simps)
  next
    case nz: False
    show ?thesis
    proof (cases "Resolve (Value a)")
      case (GroupValue as)
      let ?p = "if Key a \<noteq> [] then p @ Key a @ ''.'' else p"
      have small: "\<forall>x\<in>set as. size x < n"
      proof
        fix x assume "x \<in> set as"
        with GroupValue have "size x < size (Value a)" by (rule Resolve_group_size)
        also have "size (Value a) < size a" by (cases a) simp
        finally show "size x < n" using Suc.prems by simp
      qed
      have "\<exists>M'. appendAttrs n E h (startState (pushMemory E M g (Key a))) as ?p
                   (pushSlice E M g (Key a))
            = Some \<lparr>buf = concat (map (\<lambda>x. leavesText E h (flatten ?p x)) as), calls = [],
                    heap = M'\<rparr>"
        using small by (rule appendAttrs_flatten_from [rotated]) (rule Suc.IH)
      then obtain M' where
        "appendAttrs n E h (startState (pushMemory E M g (Key a))) as ?p (pushSlice E M g (Key a))
         = Some \<lparr>buf = concat (map (\<lambda>x. leavesText E h (flatten ?p x)) as), calls = [],
                 heap = M'\<rparr>"
        by blast
      moreover have "flatten p a = concat (map (flatten ?p) as)"
        using nz GroupValue by (subst flatten.simps) simp
      ultimately show ?thesis
        using nz GroupValue
        by (simp add: appendAttr_Suc_start rw resolved_def leavesText_concat comp_def
            children_def pushPrefix_def combine_def)
    qed (use nz in \<open>simp_all add: appendAttr_Suc_start rw resolved_def flatten.simps [of p a]\<close>)
  qed
qed

lemma appendAttr_flatten:
  assumes "replaceAttr h = None" "size a < n"
  shows "\<exists>M. appendAttr n E h s a p g
             = Some (s\<lparr>buf := buf s @ leavesText E h (flatten p a), heap := M\<rparr>)"
proof -
  from appendAttr_flatten_start [OF assms, of E "heap s" p g] obtain M where
    "appendAttr n E h (startState (heap s)) a p g
     = Some \<lparr>buf = leavesText E h (flatten p a), calls = [], heap = M\<rparr>"
    by blast
  then have "appendAttr n E h s a p g
             = Some (s\<lparr>buf := buf s @ leavesText E h (flatten p a), heap := M\<rparr>)"
    by (subst appendAttr_frame) (simp add: combine_def)
  then show ?thesis by blast
qed

lemma leafText_replaceAttr [simp]: "leafText E (h\<lparr>replaceAttr := x\<rparr>) k v = leafText E h k v"
proof -
  have "appendValue E (h\<lparr>replaceAttr := x\<rparr>) b v q = appendValue E h b v q" for b q
    by (induction E h b v q rule: appendValue.induct)
       (simp_all add: appendLevel_text appendSource_def)
  then show ?thesis
    by (simp add: leafText_def appendError_text appendKey_text split: option.splits)
qed

lemma leavesText_replaceAttr [simp]: "leavesText E (h\<lparr>replaceAttr := x\<rparr>) kvs = leavesText E h kvs"
  by (simp add: leavesText_def)

lemma flatten_group:
  "flatten p (Attr (c # k) (GroupValue as)) = concat (map (flatten (p @ (c # k) @ ''.'')) as)"
  "flatten p (Attr [] (GroupValue as)) = concat (map (flatten p) as)"
  by (simp_all add: flatten.simps [of p "Attr _ _"] resolved_def EqualZero_def)

lemma flatten_string:
  "flatten p (Attr (c # k) (StringValue x)) = [(p @ c # k, StringValue x)]"
  by (simp add: flatten.simps [of p "Attr _ _"] resolved_def EqualZero_def)

definition reqAttr :: Attr where
  "reqAttr = Attr ''req'' (GroupValue [Attr ''method'' (StringValue ''GET'')])"

lemma str_plain_examples:
  "appendString tbl [] ''req.method'' True = ''req.method''"
  "appendString tbl [] ''http.req.method'' True = ''http.req.method''"
  "appendString tbl [] ''GET'' True = ''GET''"
  by (simp_all add: appendString_def needsQuoting_def runeLoop_ascii plainByte_def WriteString_def)

lemma render_plain:
  assumes "replaceAttr h = None" "\<not> addSource h" "IsZero (Time r)"
  shows "render n E M h r
         = appendAttrs n E h \<lparr>buf = appendLevel h [] (Level r) @ '' '' @ Message r @ '' '' @ attrsPrefix h,
                               calls = [], heap = M\<rparr> (Attrs r) (groupPrefix h) (groups h)"
  using assms
  by (cases "attrsPrefix h = []")
     (simp_all add: render_def newBuffer_def writeTime_zero writeLevel_plain writeSource_off
      writeMessage_plain WriteString_def Let_def)

lemma leafText_string:
  "leafText E h k (StringValue x)
   = appendKey E h [] k [] @ appendString (printTable E) [] x True @ '' ''"
  by (simp add: leafText_def appendString_app [of _ "appendKey E h [] k []"])

text \<open>
  Claim C4. On a handler without rewrite callback, \<open>appendAttr\<close> (with enough depth for the
  attribute) renders an attribute as its flattened leaves, in order: a group with a
  non-empty key contributes its children under the prefix extended by the key and a dot, a
  group with an empty key contributes its children at the current prefix, and a leaf is
  rendered under the prefix followed by its key. The group \<open>req\<close> holding
  \<open>method=GET\<close> renders \<open>req.method=GET\<close>, and \<open>http.req.method=GET\<close> on the handler
  derived by \<open>WithGroup\<close> with name \<open>http\<close>.
\<close>

theorem C4_group_flattening:
  "(\<exists>M. appendAttr (Suc (size a) + n) E (h\<lparr>replaceAttr := None\<rparr>) s a p g
          = Some (s\<lparr>buf := buf s @ leavesText E h (flatten p a), heap := M\<rparr>))
   \<and> flatten p (Attr (c # k) (GroupValue as)) = concat (map (flatten (p @ (c # k) @ ''.'')) as)
   \<and> flatten p (Attr [] (GroupValue as)) = concat (map (flatten p) as)
   \<and> flatten p (Attr (c # k) (StringValue x)) = [(p @ c # k, StringValue x)]
   \<and> map_option buf (appendAttr 2 sampleLib plainHandler emptyState reqAttr [] nilSlice)
     = Some ''req.method=GET ''
   \<and> (case WithGroup sampleLib [] plainHandler ''http'' of
         (M, h) \<Rightarrow>
           map_option written
             (Handle 2 sampleLib M h []
                \<lparr>Time = noTime, Message = ''served'', Level = LevelInfo, PC = 0,
                   Attrs = [reqAttr]\<rparr>))
     = Some (Some (''INF served http.req.method=GET'' @ [CHR 0x0A]))"
proof -
  have 1: "\<exists>M. appendAttr (Suc (size a) + n) E (h\<lparr>replaceAttr := None\<rparr>) s a p g
          = Some (s\<lparr>buf := buf s @ leavesText E h (flatten p a), heap := M\<rparr>)"
    using appendAttr_flatten [of "h\<lparr>replaceAttr := None\<rparr>" a "Suc (size a) + n" E s p g] by simp
  have 5: "map_option buf (appendAttr 2 sampleLib plainHandler emptyState reqAttr [] nilSlice)
     = Some ''req.method=GET ''"
    by (simp add: appendAttr_unfold eval_nat_numeral rewritten_def rewriteCalls_def
        plainHandler_simps resolved_def reqAttr_def EqualZero_def children_def pushPrefix_def
        leafText_string appendKey_text str_plain_examples)
  have w: "WithGroup sampleLib [] plainHandler ''http''
           = ([[''http'']],
              plainHandler\<lparr>groupPrefix := ''http.'', groups := \<lparr>array = 0, len = 1, cap = 1\<rparr>\<rparr>)"
    by (simp add: WithGroup_def plainHandler_simps appendSlice_def nilSlice_def elems_def
        sampleLib_def)
  have 6: "(case WithGroup sampleLib [] plainHandler ''http'' of
         (M, h) \<Rightarrow>
           map_option written
             (Handle 2 sampleLib M h []
                \<lparr>Time = noTime, Message = ''served'', Level = LevelInfo, PC = 0,
                   Attrs = [reqAttr]\<rparr>))
     = Some (Some (''INF served http.req.method=GET'' @ [CHR 0x0A]))"
    by (simp add: Handle_eq render_plain w plainHandler_simps noTime_def IsZero_def
        appendLevel_text sint_Info levelLabel_def levelReference_def deltaText_def
        appendAttr_unfold eval_nat_numeral rewritten_def rewriteCalls_def
        resolved_def reqAttr_def EqualZero_def children_def pushPrefix_def
        leafText_string appendKey_text str_plain_examples sampleWriter_def)
  show ?thesis
    using 1 5 6 by (simp add: flatten_group flatten_string)
qed

section \<open>The end of the line\<close>

text \<open>A buffer is spaced when it is empty or ends with the separator.\<close>

definition spaced :: "string \<Rightarrow> bool" where
  "spaced b = (b = [] \<or> last b = CHR '' '')"

lemma spaced_simps [simp]: "spaced []" "spaced (b @ '' '')" "spaced (WriteChar b (CHR '' ''))"
  by (simp_all add: spaced_def WriteChar_def)

lemma spaced_append: "spaced a \<Longrightarrow> spaced b \<Longrightarrow> spaced (a @ b)"
  by (cases "b = []") (auto simp add: spaced_def)

lemma spaced_leafText [simp]: "spaced (leafText E h k v)"
  by (simp add: leafText_def spaced_def)

lemma appendAttrs_spaced_from:
  assumes "\<And>a p g M t. appendAttr n E h (startState M) a p g = Some t \<Longrightarrow> spaced (buf t)"
  shows "appendAttrs n E h (startState M) as p g = Some t \<Longrightarrow> spaced (buf t)"
proof (induction as arbitrary: M t)
  case Nil
  then show ?case by auto
next
  case (Cons a as)
  from Cons.prems obtain t1 t2 where
    "appendAttr n E h (startState M) a p g = Some t1"
    "appendAttrs n E h (startState (heap t1)) as p g = Some t2" "t = combine t1 t2"
    by (rule appendAttrs_Cons_Some)
  then show ?case
    using assms [of M a p g t1] Cons.IH [of "heap t1" t2] by (simp add: spaced_append)
qed

lemma appendAttr_spaced:
  "appendAttr n E h (startState M) a p g = Some t \<Longrightarrow> spaced (buf t)"
proof (induction n arbitrary: a p g M t)
  case 0
  then show ?case by simp
next
  case (Suc n)
  from Suc.prems show ?case
  proof (cases rule: appendAttr_Suc_Some_cases)
    case dropped
    then show ?thesis by simp
  next
    case (grouped t')
    have "spaced (buf t')"
      using grouped(3) by (rule appendAttrs_spaced_from [rotated]) (rule Suc.IH)
    then show ?thesis using grouped(4) by simp
  next
    case leaf
    then show ?thesis by simp
  qed
qed

lemma appendAttrs_spaced:
  "appendAttrs n E h (startState M) as p g = Some t \<Longrightarrow> spaced (buf t)"
  by (rule appendAttrs_spaced_from [rotated]) (auto dest: appendAttr_spaced)

lemma writeTime_spaced: "spaced (buf s) \<Longrightarrow> spaced (buf (writeTime E h s r))"
  by (auto simp add: writeTime_def callRep_def Let_def split: option.splits val.splits)

lemma writeLevel_spaced: "spaced (buf s) \<Longrightarrow> spaced (buf (writeLevel E h s r))"
  by (auto simp add: writeLevel_def callRep_def Let_def split: option.splits)

lemma writeSource_spaced: "spaced (buf s) \<Longrightarrow> spaced (buf (writeSource E h s r))"
  by (auto simp add: writeSource_def callRep_def Let_def split: option.splits)

lemma writeMessage_spaced: "spaced (buf s) \<Longrightarrow> spaced (buf (writeMessage E h s r))"
  by (auto simp add: writeMessage_def callRep_def Let_def split: option.splits)

lemma heap_writes [simp]:
  "heap (writeTime E h s r) = heap s" "heap (writeLevel E h s r) = heap s"
  "heap (writeSource E h s r) = heap s" "heap (writeMessage E h s r) = heap s"
  by (simp_all add: writeTime_def writeLevel_def writeSource_def writeMessage_def callRep_def
      Let_def split: option.splits val.splits)

lemma render_spaced:
  assumes "spaced (attrsPrefix h)" "render n E M h r = Some s"
  shows "spaced (buf s)"
proof -
  let ?s4 = "writeMessage E h (writeSource E h (writeLevel E h
               (writeTime E h \<lparr>buf = newBuffer, calls = [], heap = M\<rparr> r) r) r) r"
  let ?s5 = "if length (attrsPrefix h) > 0 then ?s4\<lparr>buf := WriteString (buf ?s4) (attrsPrefix h)\<rparr>
             else ?s4"
  have "spaced (buf ?s4)"
    by (intro writeMessage_spaced writeSource_spaced writeLevel_spaced writeTime_spaced)
       (simp add: newBuffer_def)
  then have s5: "spaced (buf ?s5)"
    using assms(1) by (simp add: WriteString_def spaced_append)
  have "appendAttrs n E h ?s5 (Attrs r) (groupPrefix h) (groups h) = Some s"
    using assms(2) by (simp add: render_def Let_def)
  then have "map_option (combine ?s5)
               (appendAttrs n E h (startState (heap ?s5)) (Attrs r) (groupPrefix h) (groups h))
             = Some s"
    by (subst (asm) appendAttrs_frame)
  then obtain t where
    t: "appendAttrs n E h (startState (heap ?s5)) (Attrs r) (groupPrefix h) (groups h) = Some t"
    "s = combine ?s5 t"
    by auto
  from t(2) have "buf s = buf ?s5 @ buf t"
    by simp
  with s5 appendAttrs_spaced [OF t(1)] show ?thesis
    by (simp add: spaced_append)
qed

lemma NewHandler_spaced: "spaced (attrsPrefix (NewHandler wr opts))"
  by (simp add: NewHandler_def Let_def split: option.splits)

lemma WithGroup_spaced:
  "spaced (attrsPrefix h) \<Longrightarrow> spaced (attrsPrefix (snd (WithGroup E M h name)))"
  by (simp add: WithGroup_def Let_def split: prod.splits)

lemma WithAttrs_spaced:
  assumes "spaced (attrsPrefix h)" "WithAttrs n E M h as = Some (M', h')"
  shows "spaced (attrsPrefix h')"
proof (cases "as = []")
  case True
  with assms show ?thesis by (simp add: WithAttrs_def)
next
  case False
  with assms(2) obtain t where
    t: "appendAttrs n E h (startState M) as (groupPrefix h) (groups h) = Some t"
    "h' = h\<lparr>attrsPrefix := attrsPrefix h @ buf t\<rparr>"
    by (auto simp add: WithAttrs_def newBuffer_def startState_def split: option.splits)
  with assms(1) appendAttrs_spaced [OF t(1)] show ?thesis
    by (simp add: spaced_append)
qed

text \<open>The number of positions at which a pattern occurs in a text.\<close>

fun occurrences :: "string \<Rightarrow> string \<Rightarrow> nat" where
  "occurrences pat [] = (if pat = [] then 1 else 0)"
| "occurrences pat (c # cs) =
     (if take (length pat) (c # cs) = pat then 1 else 0) + occurrences pat cs"

lemma occurrences_short: "length s < length pat \<Longrightarrow> occurrences pat s = 0"
  by (induction s) auto

lemma occurrences_self: "pat \<noteq> [] \<Longrightarrow> occurrences pat pat = 1"
  by (cases pat) (simp_all add: occurrences_short)

lemma occurrences_skip:
  "pat \<noteq> [] \<Longrightarrow> hd pat \<notin> set code \<Longrightarrow> occurrences pat (code @ ys) = occurrences pat ys"
proof (induction code)
  case Nil
  show ?case by simp
next
  case (Cons c code)
  then have "take (length pat) (c # code @ ys) \<noteq> pat"
    by (cases pat) auto
  with Cons show ?case by simp
qed

lemma occurrences_sep:
  assumes "c \<notin> set pat" "pat \<noteq> []"
  shows "occurrences pat (xs @ c # ys) = occurrences pat xs + occurrences pat ys"
proof (induction xs)
  case Nil
  have "take (length pat) (c # ys) \<noteq> pat"
    using assms by (cases pat) auto
  then show ?case using assms by simp
next
  case (Cons x xs)
  have "(take (length pat) (x # xs @ c # ys) = pat) = (take (length pat) (x # xs) = pat)"
  proof (cases "length pat \<le> length (x # xs)")
    case True
    then show ?thesis
      using take_append [of "length pat" "x # xs" "c # ys"] by simp
  next
    case False
    then obtain k where k: "length pat - length (x # xs) = Suc k"
      by (cases "length pat - length (x # xs)") auto
    have "take (length pat) ((x # xs) @ c # ys) = (x # xs) @ c # take k ys"
      using False k by (simp only: take_append take_all take_Suc_Cons)
    then have "c \<in> set (take (length pat) (x # xs @ c # ys))"
      by simp
    then have "take (length pat) (x # xs @ c # ys) \<noteq> pat"
      using assms(1) by metis
    moreover have "length (take (length pat) (x # xs)) < length pat"
      using False by simp
    then have "take (length pat) (x # xs) \<noteq> pat"
      by (metis nat_neq_iff)
    ultimately show ?thesis by simp
  qed
  with Cons show ?case by simp
qed

text \<open>The rendered level label: the label and its delta, without color.\<close>

definition levelText :: "Level \<Rightarrow> string" where
  "levelText l = levelLabel l @ deltaText (sint l - levelReference l)"

lemma digit_decimal: "n < 10 \<Longrightarrow> digit n \<in> set ''0123456789''"
  by (auto simp add: digit_def eval_nat_numeral less_Suc_eq)

lemma digits10_chars: "set (digits10 n) \<subseteq> set ''0123456789''"
proof (induction n rule: digits10.induct)
  case (1 n)
  show ?case
  proof (cases "n < 10")
    case True
    then show ?thesis using digit_decimal [of n] by (subst digits10.simps) simp
  next
    case False
    then show ?thesis
      using 1 digit_decimal [of "n mod 10"] by (subst digits10.simps) simp
  qed
qed

lemma deltaText_chars: "set (deltaText d) \<subseteq> set ''+-0123456789''"
proof -
  have a: "set ''0123456789'' \<subseteq> set ''+-0123456789''"
    by simp
  have k: "set (digits10 k) \<subseteq> set ''+-0123456789''" for k
    using digits10_chars a by (rule subset_trans)
  have s: "CHR ''+'' \<in> set ''+-0123456789''" "CHR ''-'' \<in> set ''+-0123456789''"
    by simp_all
  consider "d = 0" | "0 < d" | "d < 0" by linarith
  then show ?thesis
  proof cases
    case 1
    then show ?thesis by (simp add: deltaText_def)
  next
    case 2
    then have "deltaText d = CHR ''+'' # digits10 (nat d)" by (simp add: deltaText_def)
    then show ?thesis using k [of "nat d"] s(1) by simp
  next
    case 3
    then have "deltaText d = CHR ''-'' # digits10 (nat (- d))" by (simp add: deltaText_def)
    then show ?thesis using k [of "nat (- d)"] s(2) by simp
  qed
qed

lemma levelText_chars: "set (levelText l) \<subseteq> set ''DBGINFWRE+-0123456789''"
proof -
  have 1: "set (levelLabel l) \<subseteq> set ''DBGINFWRE+-0123456789''"
    by (simp add: levelLabel_def)
  have 2: "set ''+-0123456789'' \<subseteq> set ''DBGINFWRE+-0123456789''"
    by simp
  have "set (deltaText (sint l - levelReference l)) \<subseteq> set ''DBGINFWRE+-0123456789''"
    using deltaText_chars 2 by (rule subset_trans)
  with 1 show ?thesis
    by (simp only: levelText_def set_append Un_subset_iff)
qed

lemma levelText_nonempty: "levelText l \<noteq> []"
  by (simp add: levelText_def levelLabel_def)

lemma hd_levelText: "hd (levelText l) \<in> set ''DIWE''"
  by (simp add: levelText_def levelLabel_def)

lemma levelText_separators:
  "ESC \<notin> set (levelText l)" "CHR '' '' \<notin> set (levelText l)" "CHR 0x0A \<notin> set (levelText l)"
proof -
  have "ESC \<notin> set ''DBGINFWRE+-0123456789''" "CHR '' '' \<notin> set ''DBGINFWRE+-0123456789''"
    "CHR 0x0A \<notin> set ''DBGINFWRE+-0123456789''"
    by (simp_all add: ESC_def)
  then show "ESC \<notin> set (levelText l)" "CHR '' '' \<notin> set (levelText l)"
    "CHR 0x0A \<notin> set (levelText l)"
    using levelText_chars [of l] by blast+
qed

lemma hd_levelText_not_code:
  "hd (levelText l) \<notin> set ansiFaint" "hd (levelText l) \<notin> set ansiReset"
  "hd (levelText l) \<notin> set (levelColor l)" "hd (levelText l) \<notin> set (''[0m '' @ levelColor l)"
  "hd (levelText l) \<notin> set ''[0m ''"
proof -
  consider "hd (levelText l) = CHR ''D''" | "hd (levelText l) = CHR ''I''"
    | "hd (levelText l) = CHR ''W''" | "hd (levelText l) = CHR ''E''"
    using hd_levelText [of l] by auto
  then have "hd (levelText l) \<notin> set (ESC # ''[0123456789;m '')"
    by cases (simp_all add: ESC_def)
  moreover have "set ansiFaint \<subseteq> set (ESC # ''[0123456789;m '')"
    "set ansiReset \<subseteq> set (ESC # ''[0123456789;m '')"
    "set (levelColor l) \<subseteq> set (ESC # ''[0123456789;m '')"
    "set (''[0m '' @ levelColor l) \<subseteq> set (ESC # ''[0123456789;m '')"
    "set ''[0m '' \<subseteq> set (ESC # ''[0123456789;m '')"
    by (simp_all add: ansiFaint_def ansiReset_def levelColor_def ansiBrightMagentaFaint_def
        ansiBrightGreen_def ansiBrightYellow_def ansiBrightRed_def)
  ultimately show "hd (levelText l) \<notin> set ansiFaint" "hd (levelText l) \<notin> set ansiReset"
    "hd (levelText l) \<notin> set (levelColor l)" "hd (levelText l) \<notin> set (''[0m '' @ levelColor l)"
    "hd (levelText l) \<notin> set ''[0m ''"
    by blast+
qed

text \<open>The line of a record without attributes, on a handler that adds nothing else.\<close>

definition lineText :: "stdlib \<Rightarrow> 'w handler \<Rightarrow> Record \<Rightarrow> string" where
  "lineText E h r =
     appendTime E h [] (Time r) @ '' '' @ appendLevel h [] (Level r) @ '' '' @ Message r @ [CHR 0x0A]"

lemma appendLevel_levelText:
  "appendLevel h [] l
   = (if noColor h then [] else levelColor l) @ levelText l @ (if noColor h then [] else ansiReset)"
  by (simp add: appendLevel_text levelText_def)

lemma occurrences_lineText:
  assumes T: "occurrences (levelText (Level r)) (timeFormatted E (Time r) (timeFormat h)) = 0"
    and M: "occurrences (levelText (Level r)) (Message r) = 0"
  shows "occurrences (levelText (Level r)) (lineText E h r) = 1"
proof -
  let ?p = "levelText (Level r)"
  let ?T = "timeFormatted E (Time r) (timeFormat h)"
  let ?M = "Message r"
  note ne = levelText_nonempty [of "Level r"]
  note sep = levelText_separators [of "Level r"]
  note skip = hd_levelText_not_code [of "Level r"]
  have tail: "occurrences ?p (?M @ [CHR 0x0A]) = 0"
    using occurrences_sep [OF sep(3) ne, of ?M "[]"] M ne by simp
  show ?thesis
  proof (cases "noColor h")
    case True
    then have "lineText E h r = ?T @ CHR '' '' # (?p @ CHR '' '' # (?M @ [CHR 0x0A]))"
      by (simp add: lineText_def appendTime_text appendLevel_levelText)
    then show ?thesis
      using T tail
      by (simp add: occurrences_sep [OF sep(2) ne] occurrences_self [OF ne])
  next
    case False
    have e: "ansiReset = ESC # ''[0m''" by (simp add: ansiReset_def)
    from False have
      "lineText E h r
       = ansiFaint @ (?T @ ESC # ((''[0m '' @ levelColor (Level r)) @ (?p @ ESC # (''[0m '' @ (?M @ [CHR 0x0A])))))"
      by (simp add: lineText_def appendTime_text appendLevel_levelText e)
    then show ?thesis
      using T tail
      by (simp only: occurrences_skip [OF ne skip(1)] occurrences_sep [OF sep(1) ne]
          occurrences_skip [OF ne skip(4)] occurrences_skip [OF ne skip(5)]
          occurrences_self [OF ne])
  qed
qed

lemma lineText_terminator:
  assumes "CHR 0x0A \<notin> set (timeFormatted E (Time r) (timeFormat h))"
    and "CHR 0x0A \<notin> set (Message r)"
  shows "last (lineText E h r) = CHR 0x0A \<and> CHR 0x0A \<notin> set (butlast (lineText E h r))"
proof -
  let ?body = "appendTime E h [] (Time r) @ '' '' @ appendLevel h [] (Level r) @ '' '' @ Message r"
  have l: "lineText E h r = ?body @ [CHR 0x0A]"
    by (simp add: lineText_def)
  have "CHR 0x0A \<notin> set ?body"
    using assms levelText_separators(3) [of "Level r"]
    by (auto simp add: appendTime_text appendLevel_levelText ansiFaint_def ansiReset_def ESC_def
        levelColor_def ansiBrightMagentaFaint_def ansiBrightGreen_def ansiBrightYellow_def
        ansiBrightRed_def)
  then show ?thesis
    unfolding l by (simp only: last_snoc butlast_snoc) simp
qed

lemma Handle_plain_line:
  assumes "replaceAttr h = None" "\<not> addSource h" "attrsPrefix h = []"
    "\<not> IsZero (Time r)" "Attrs r = []"
  shows "Handle n E M h out r
         = Some \<lparr>sink = fst (w h out (lineText E h r)), err = snd (w h out (lineText E h r)),
                 written = Some (lineText E h r), invoked = [], store = M\<rparr>"
proof -
  have "render n E M h r
        = Some \<lparr>buf = appendTime E h [] (Time r) @ '' '' @ appendLevel h [] (Level r) @ '' ''
                       @ Message r @ '' '', calls = [], heap = M\<rparr>"
    using assms
    by (simp add: render_def newBuffer_def writeTime_plain writeLevel_plain writeSource_off
        writeMessage_plain)
  then show ?thesis
    by (simp add: Handle_eq lineText_def butlast_append)
qed

definition dropAll :: "string list \<Rightarrow> Attr \<Rightarrow> Attr" where
  "dropAll grps a = Attr [] (AnyValue NilAny)"

definition startRecord :: Record where
  "startRecord = \<lparr>Time = someTime, Message = ''Starting server'', Level = LevelInfo, PC = 0,
                  Attrs = []\<rparr>"

lemma levelText_Info: "levelText LevelInfo = ''INF''"
  by (simp add: levelText_def levelLabel_def levelReference_def deltaText_def sint_Info)

lemma lineText_sample:
  "lineText sampleLib plainHandler \<lparr>Time = t, Message = m, Level = LevelInfo, PC = pc, Attrs = as\<rparr>
   = ''12:00:00.000 INF '' @ m @ [CHR 0x0A]"
  by (simp add: lineText_def appendTime_text appendLevel_levelText plainHandler_simps
      levelText_Info sampleLib_def)

text \<open>
  The message is written as it is. A record with a non-zero time stamp, level Info, no
  attributes and the message \<open>INF\<close> yields a line in which the level label occurs twice;
  with a message that ends in a line terminator the line ends with two of them.
\<close>

theorem C5_counterexample:
  "map_option written
     (Handle 1 sampleLib [] plainHandler []
        \<lparr>Time = someTime, Message = ''INF'', Level = LevelInfo, PC = 0, Attrs = []\<rparr>)
   = Some (Some (''12:00:00.000 INF INF'' @ [CHR 0x0A]))
   \<and> occurrences (levelText LevelInfo) (''12:00:00.000 INF INF'' @ [CHR 0x0A]) = 2
   \<and> map_option written
     (Handle 1 sampleLib [] plainHandler []
        \<lparr>Time = someTime, Message = ''bye'' @ [CHR 0x0A], Level = LevelInfo, PC = 0, Attrs = []\<rparr>)
   = Some (Some (''12:00:00.000 INF bye'' @ [CHR 0x0A, CHR 0x0A]))"
proof -
  have nz: "\<not> IsZero someTime"
    by (simp add: IsZero_def someTime_def)
  have 1: "map_option written
     (Handle 1 sampleLib [] plainHandler []
        \<lparr>Time = someTime, Message = m, Level = LevelInfo, PC = 0, Attrs = []\<rparr>)
     = Some (Some (''12:00:00.000 INF '' @ m @ [CHR 0x0A]))" for m
    using nz by (simp add: Handle_plain_line plainHandler_simps lineText_sample)
  have 2: "occurrences (levelText LevelInfo) (''12:00:00.000 INF INF'' @ [CHR 0x0A]) = 2"
    by (simp add: levelText_Info)
  show ?thesis
    using 1 [of "''INF''"] 1 [of "''bye'' @ [CHR 0x0A]"] 2 by simp
qed

text \<open>
  Claim C5, amended. For every call of \<open>Handle\<close> that returns: when the buffer is empty,
  nothing is written to the sink and the result is success; otherwise the last byte of the
  buffer is replaced by a line terminator and the buffer is handed to the sink, whose
  result is returned, and that last byte is the separator whenever the inherited
  attribute prefix is empty or ends with the separator (as it does on every handler
  built by \<open>NewHandler\<close>, \<open>WithAttrs\<close> and \<open>WithGroup\<close>).
  For a record with a non-zero time stamp and no attributes, on a handler with no rewrite
  callback, no source and no inherited attributes, the line is the formatted time, the
  level and the message, separated by spaces, and a final line terminator. That
  terminator is the only one when neither the formatted time nor the message contains
  one, and the level label (with its delta) occurs exactly once when it occurs in
  neither the formatted time nor the message.
\<close>

theorem C5_finalize:
  "(Handle n E M h out r = Some res \<longrightarrow>
      (\<exists>s. render n E M h r = Some s
         \<and> (if buf s = [] then written res = None \<and> err res = None \<and> sink res = out
            else written res = Some (butlast (buf s) @ [CHR 0x0A])
                 \<and> (sink res, err res) = w h out (butlast (buf s) @ [CHR 0x0A])
                 \<and> (spaced (attrsPrefix h) \<longrightarrow> last (buf s) = CHR '' ''))))
   \<and> (replaceAttr h = None \<and> \<not> addSource h \<and> attrsPrefix h = [] \<and> \<not> IsZero (Time r)
        \<and> Attrs r = [] \<longrightarrow>
        Handle n E M h out r
          = Some \<lparr>sink = fst (w h out (lineText E h r)), err = snd (w h out (lineText E h r)),
                  written = Some (lineText E h r), invoked = [], store = M\<rparr>
        \<and> last (lineText E h r) = CHR 0x0A
        \<and> (CHR 0x0A \<notin> set (timeFormatted E (Time r) (timeFormat h)) \<and> CHR 0x0A \<notin> set (Message r)
             \<longrightarrow> CHR 0x0A \<notin> set (butlast (lineText E h r)))
        \<and> (occurrences (levelText (Level r)) (timeFormatted E (Time r) (timeFormat h)) = 0
             \<and> occurrences (levelText (Level r)) (Message r) = 0
             \<longrightarrow> occurrences (levelText (Level r)) (lineText E h r) = 1))"
proof -
  have a: "Handle n E M h out r = Some res \<longrightarrow>
      (\<exists>s. render n E M h r = Some s
         \<and> (if buf s = [] then written res = None \<and> err res = None \<and> sink res = out
            else written res = Some (butlast (buf s) @ [CHR 0x0A])
                 \<and> (sink res, err res) = w h out (butlast (buf s) @ [CHR 0x0A])
                 \<and> (spaced (attrsPrefix h) \<longrightarrow> last (buf s) = CHR '' '')))"
  proof
    assume H: "Handle n E M h out r = Some res"
    then obtain s where s: "render n E M h r = Some s"
      by (auto simp add: Handle_eq split: option.splits)
    have sp: "spaced (attrsPrefix h) \<longrightarrow> buf s \<noteq> [] \<longrightarrow> last (buf s) = CHR '' ''"
      using render_spaced [OF _ s] by (auto simp add: spaced_def)
    show "\<exists>s. render n E M h r = Some s
         \<and> (if buf s = [] then written res = None \<and> err res = None \<and> sink res = out
            else written res = Some (butlast (buf s) @ [CHR 0x0A])
                 \<and> (sink res, err res) = w h out (butlast (buf s) @ [CHR 0x0A])
                 \<and> (spaced (attrsPrefix h) \<longrightarrow> last (buf s) = CHR '' ''))"
      using H s sp by (intro exI [of _ s]) (auto simp add: Handle_eq split: if_splits)
  qed
  have b: "last (lineText E h r) = CHR 0x0A"
    by (simp add: lineText_def)
  show ?thesis
    using a b Handle_plain_line [of h r n E M out] lineText_terminator [of E r h]
      occurrences_lineText [of r E h]
    by blast
qed

theorem C5_finalize_witness:
  "Handle 1 sampleLib [] (plainHandler\<lparr>replaceAttr := Some dropAll\<rparr>) ''kept''
       \<lparr>Time = noTime, Message = ''m'', Level = LevelInfo, PC = 0, Attrs = []\<rparr>
     = Some \<lparr>sink = ''kept'', err = None, written = None,
             invoked = [([], Attr LevelKey (AnyValue (LevelAny LevelInfo))),
                        ([], Attr MessageKey (StringValue ''m''))], store = []\<rparr>
   \<and> replaceAttr plainHandler = None \<and> \<not> addSource plainHandler \<and> attrsPrefix plainHandler = []
   \<and> \<not> IsZero (Time startRecord) \<and> Attrs startRecord = []
   \<and> Handle 1 sampleLib [] plainHandler [] startRecord
     = Some \<lparr>sink = ''12:00:00.000 INF Starting server'' @ [CHR 0x0A], err = None,
             written = Some (''12:00:00.000 INF Starting server'' @ [CHR 0x0A]), invoked = [],
             store = []\<rparr>
   \<and> CHR 0x0A \<notin> set (butlast (''12:00:00.000 INF Starting server'' @ [CHR 0x0A]))
   \<and> occurrences (levelText (Level startRecord)) (''12:00:00.000 INF Starting server'' @ [CHR 0x0A]) = 1"
proof -
  let ?h = "plainHandler\<lparr>replaceAttr := Some dropAll\<rparr>"
  let ?r = "\<lparr>Time = noTime, Message = ''m'', Level = LevelInfo, PC = 0, Attrs = []\<rparr>"
  let ?res = "\<lparr>sink = ''kept'', err = None, written = None,
             invoked = [([], Attr LevelKey (AnyValue (LevelAny LevelInfo))),
                        ([], Attr MessageKey (StringValue ''m''))], store = []\<rparr>"
  have 1: "Handle 1 sampleLib [] ?h ''kept'' ?r = Some ?res"
    by (simp add: Handle_eq render_def newBuffer_def writeTime_zero noTime_def IsZero_def
        writeLevel_def writeSource_off writeMessage_def callRep_def dropAll_def plainHandler_simps)
  have hyp: "replaceAttr plainHandler = None \<and> \<not> addSource plainHandler
      \<and> attrsPrefix plainHandler = [] \<and> \<not> IsZero (Time startRecord) \<and> Attrs startRecord = []"
    by (simp add: plainHandler_simps startRecord_def IsZero_def someTime_def)
  have l: "lineText sampleLib plainHandler startRecord
           = ''12:00:00.000 INF Starting server'' @ [CHR 0x0A]"
    by (simp add: startRecord_def lineText_sample)
  have t: "CHR 0x0A \<notin> set (timeFormatted sampleLib (Time startRecord) (timeFormat plainHandler))
           \<and> CHR 0x0A \<notin> set (Message startRecord)"
    by (simp add: sampleLib_def startRecord_def)
  have o: "occurrences (levelText (Level startRecord))
             (timeFormatted sampleLib (Time startRecord) (timeFormat plainHandler)) = 0
           \<and> occurrences (levelText (Level startRecord)) (Message startRecord) = 0"
    by (simp add: sampleLib_def startRecord_def levelText_Info)
  have w: "w plainHandler [] x = (x, None)" for x
    by (simp add: plainHandler_simps sampleWriter_def)
  from C5_finalize [where n = 1 and E = sampleLib and M = "[]" and h = plainHandler
      and out = "[]" and r = startRecord] hyp t o
  have "Handle 1 sampleLib [] plainHandler [] startRecord
     = Some \<lparr>sink = ''12:00:00.000 INF Starting server'' @ [CHR 0x0A], err = None,
             written = Some (''12:00:00.000 INF Starting server'' @ [CHR 0x0A]), invoked = [],
             store = []\<rparr>
   \<and> CHR 0x0A \<notin> set (butlast (''12:00:00.000 INF Starting server'' @ [CHR 0x0A]))
   \<and> occurrences (levelText (Level startRecord)) (''12:00:00.000 INF Starting server'' @ [CHR 0x0A]) = 1"
    by (simp only: l w fst_conv snd_conv) blast
  with 1 hyp show ?thesis by blast
qed

section \<open>Color\<close>

text \<open>
  Deleting the ANSI mode sequences from a text: an escape byte, \<open>[\<close>, any number of digits
  and semicolons, and the final \<open>m\<close>. An escape byte that does not start such a sequence
  is kept.
\<close>

fun skipParams :: "string \<Rightarrow> string option" where
  "skipParams [] = None"
| "skipParams (c # cs) =
     (if c = CHR ''m'' then Some cs
      else if c \<in> set ''0123456789;'' then skipParams cs
      else None)"

fun modeRest :: "string \<Rightarrow> string option" where
  "modeRest (e # b # cs) = (if e = ESC \<and> b = CHR ''['' then skipParams cs else None)"
| "modeRest _ = None"

lemma skipParams_length: "skipParams cs = Some rest \<Longrightarrow> length rest < length cs"
  by (induction cs) (auto split: if_splits)

lemma modeRest_length: "modeRest cs = Some rest \<Longrightarrow> length rest < length cs"
  by (cases cs rule: modeRest.cases) (auto split: if_splits dest: skipParams_length)

function stripANSI :: "string \<Rightarrow> string" where
  "stripANSI [] = []"
| "stripANSI (c # cs) =
     (case modeRest (c # cs) of
        Some rest \<Rightarrow> stripANSI rest
      | None \<Rightarrow> c # stripANSI cs)"
  by pat_completeness auto
termination
  by (relation "measure length") (auto dest: modeRest_length)

declare stripANSI.simps(2) [simp del]

lemma stripANSI_plain: "c \<noteq> ESC \<Longrightarrow> stripANSI (c # cs) = c # stripANSI cs"
  by (cases cs) (simp_all add: stripANSI.simps(2))

definition modes :: "string set" where
  "modes = {ansiReset, ansiFaint, ansiBrightMagentaFaint, ansiResetFaint, ansiBrightRed,
            ansiBrightRedFaint, ansiBrightGreen, ansiBrightYellow}"

lemma stripANSI_mode: "m \<in> modes \<Longrightarrow> stripANSI (m @ rest) = stripANSI rest"
  by (auto simp add: modes_def ansiReset_def ansiFaint_def ansiBrightMagentaFaint_def
      ansiResetFaint_def ansiBrightRed_def ansiBrightRedFaint_def ansiBrightGreen_def
      ansiBrightYellow_def stripANSI.simps(2))

lemma last_mode: "m \<in> modes \<Longrightarrow> m \<noteq> [] \<and> last m = CHR ''m''"
  by (auto simp add: modes_def ansiReset_def ansiFaint_def ansiBrightMagentaFaint_def
      ansiResetFaint_def ansiBrightRed_def ansiBrightRedFaint_def ansiBrightGreen_def
      ansiBrightYellow_def)

text \<open>\<open>tinted c n\<close>: the text \<open>c\<close> is the text \<open>n\<close> with modes inserted.\<close>

inductive tinted :: "string \<Rightarrow> string \<Rightarrow> bool" where
  empty: "tinted [] []"
| byte: "tinted c n \<Longrightarrow> tinted (c @ [x]) (n @ [x])"
| mode: "tinted c n \<Longrightarrow> m \<in> modes \<Longrightarrow> tinted (c @ m) n"

lemma tinted_refl: "tinted x x"
  by (induction x rule: rev_induct) (auto intro: tinted.intros)

lemma tinted_append:
  assumes "tinted c1 n1" "tinted c2 n2"
  shows "tinted (c1 @ c2) (n1 @ n2)"
  using assms(2,1)
proof (induction c2 n2 rule: tinted.induct)
  case empty
  then show ?case by simp
next
  case (byte c n x)
  then have "tinted ((c1 @ c) @ [x]) ((n1 @ n) @ [x])"
    using tinted.byte [of "c1 @ c" "n1 @ n" x] by simp
  then show ?case by simp
next
  case (mode c n m)
  then have "tinted ((c1 @ c) @ m) (n1 @ n)"
    using tinted.mode [of "c1 @ c" "n1 @ n" m] by simp
  then show ?case by simp
qed

lemma tinted_mode: "m \<in> modes \<Longrightarrow> tinted m []"
  using tinted.mode [OF tinted.empty] by simp

lemma tinted_if: "m \<in> modes \<Longrightarrow> tinted (if False then [] else m) (if True then [] else m)"
  by (simp add: tinted_mode)

lemma stripANSI_tinted:
  "tinted c n \<Longrightarrow> ESC \<notin> set n \<Longrightarrow> stripANSI (c @ rest) = n @ stripANSI rest"
proof (induction c n arbitrary: rest rule: tinted.induct)
  case empty
  show ?case by simp
next
  case (byte c n x)
  then have "stripANSI (c @ x # rest) = n @ stripANSI (x # rest)" by simp
  moreover have "x \<noteq> ESC" using byte.prems by auto
  ultimately show ?case by (simp add: stripANSI_plain)
next
  case (mode c n m)
  then have "stripANSI (c @ m @ rest) = n @ stripANSI (m @ rest)" by simp
  then show ?case using mode.hyps by (simp add: stripANSI_mode)
qed

lemma tinted_replace_last:
  assumes "tinted c n" "c \<noteq> []" "last c = CHR '' ''"
  shows "n \<noteq> [] \<and> tinted (butlast c @ [x]) (butlast n @ [x])"
  using assms
proof (cases rule: tinted.cases)
  case empty
  with assms show ?thesis by simp
next
  case (byte c0 n0 y)
  then show ?thesis by (auto intro: tinted.byte)
next
  case (mode c0 m)
  then have "last c = CHR ''m''" using last_mode [of m] by simp
  with assms show ?thesis by simp
qed

text \<open>Two handlers that differ in the color flag only; the inherited attributes of the
  first are those of the second with modes inserted.\<close>

definition twins :: "'w handler \<Rightarrow> 'w handler \<Rightarrow> bool" where
  "twins hc hn =
    (\<not> noColor hc \<and> noColor hn \<and> groupPrefix hc = groupPrefix hn \<and> groups hc = groups hn
     \<and> addSource hc = addSource hn \<and> replaceAttr hc = replaceAttr hn
     \<and> timeFormat hc = timeFormat hn \<and> tinted (attrsPrefix hc) (attrsPrefix hn))"

lemma modes_simps [simp]:
  "ansiReset \<in> modes" "ansiFaint \<in> modes" "ansiResetFaint \<in> modes" "ansiBrightRedFaint \<in> modes"
  "levelColor l \<in> modes"
  by (simp_all add: modes_def levelColor_def)

lemma tinted_wrap:
  assumes "m1 \<in> modes" "m2 \<in> modes" "tinted c n"
  shows "tinted (m1 @ c @ m2) n"
proof -
  have "tinted (m1 @ c) ([] @ n)"
    using tinted_mode [OF assms(1)] assms(3) by (rule tinted_append)
  then have "tinted (m1 @ c) n"
    by simp
  then have "tinted ((m1 @ c) @ m2) n"
    using assms(2) by (rule tinted.mode)
  then show ?thesis by simp
qed

lemma tinted_level:
  assumes "twins hc hn"
  shows "tinted (appendLevel hc [] l) (appendLevel hn [] l)"
proof -
  let ?x = "levelLabel l @ deltaText (sint l - levelReference l)"
  have "tinted (levelColor l @ ?x @ ansiReset) ?x"
    by (rule tinted_wrap) (simp_all add: tinted_refl)
  then show ?thesis
    using assms by (simp add: twins_def appendLevel_text)
qed

lemma tinted_time:
  assumes "twins hc hn"
  shows "tinted (appendTime E hc [] t) (appendTime E hn [] t)"
proof -
  let ?x = "timeFormatted E t (timeFormat hn)"
  have "tinted (ansiFaint @ ?x @ ansiReset) ?x"
    by (rule tinted_wrap) (simp_all add: tinted_refl)
  then show ?thesis
    using assms by (simp add: twins_def appendTime_text)
qed

lemma appendSource_text:
  "appendSource E h b src =
     b @ (if noColor h then [] else ansiFaint)
       @ filepathJoin E (filepathBase E (fst (filepathSplit E (File src))))
           (snd (filepathSplit E (File src)))
       @ '':'' @ Itoa (Line src) @ (if noColor h then [] else ansiReset)"
  by (simp add: appendSource_def WriteStringIf_app WriteString_def WriteChar_def split: prod.splits)

lemma tinted_source:
  assumes "twins hc hn"
  shows "tinted (appendSource E hc [] src) (appendSource E hn [] src)"
proof -
  let ?x = "filepathJoin E (filepathBase E (fst (filepathSplit E (File src))))
           (snd (filepathSplit E (File src))) @ '':'' @ Itoa (Line src)"
  have "tinted (ansiFaint @ ?x @ ansiReset) ?x"
    by (rule tinted_wrap) (simp_all add: tinted_refl)
  then show ?thesis
    using assms by (simp add: twins_def appendSource_text)
qed

lemma tinted_key:
  assumes "twins hc hn"
  shows "tinted (appendKey E hc [] k p) (appendKey E hn [] k p)"
proof -
  let ?x = "appendString (printTable E) [] (p @ k) True @ ''=''"
  have "tinted (ansiFaint @ ?x @ ansiReset) ?x"
    by (rule tinted_wrap) (simp_all add: tinted_refl)
  then show ?thesis
    using assms by (simp add: twins_def appendKey_text)
qed

lemma tinted_error:
  assumes "twins hc hn"
  shows "tinted (appendError E hc [] msg k p) (appendError E hn [] msg k p)"
proof -
  let ?k = "appendString (printTable E) [] (p @ k) True @ ''=''"
  let ?m = "appendString (printTable E) [] msg True"
  have 1: "tinted (ansiBrightRedFaint @ ?k @ ansiResetFaint) ?k"
    by (rule tinted_wrap) (simp_all add: tinted_refl)
  have 2: "tinted (?m @ ansiReset) ?m"
    using tinted.mode [OF tinted_refl, of ansiReset ?m] by simp
  have "tinted ((ansiBrightRedFaint @ ?k @ ansiResetFaint) @ ?m @ ansiReset) (?k @ ?m)"
    using 1 2 by (rule tinted_append)
  then show ?thesis
    using assms by (simp add: twins_def appendError_text)
qed

lemma tinted_value:
  assumes "twins hc hn"
  shows "tinted (appendValue E hc [] v q) (appendValue E hn [] v q)"
proof (cases v)
  case (AnyValue x)
  then show ?thesis
    by (cases x) (simp_all add: tinted_refl tinted_level [OF assms] tinted_source [OF assms])
qed (simp_all add: tinted_refl)

lemma tinted_leafText:
  assumes "twins hc hn"
  shows "tinted (leafText E hc k v) (leafText E hn k v)"
proof (cases "asError v")
  case None
  have "tinted (appendKey E hc [] k [] @ appendValue E hc [] v True)
               (appendKey E hn [] k [] @ appendValue E hn [] v True)"
    using tinted_key [OF assms] tinted_value [OF assms] by (rule tinted_append)
  then have "tinted ((appendKey E hc [] k [] @ appendValue E hc [] v True) @ '' '')
               ((appendKey E hn [] k [] @ appendValue E hn [] v True) @ '' '')"
    by (rule tinted.byte)
  then show ?thesis
    using None
    by (simp add: leafText_def appendValue_app [of E hc "appendKey E hc [] k []"]
        appendValue_app [of E hn "appendKey E hn [] k []"])
next
  case (Some msg)
  have "tinted (appendError E hc [] msg k [] @ '' '') (appendError E hn [] msg k [] @ '' '')"
    using tinted_error [OF assms] by (rule tinted.byte)
  then show ?thesis using Some by (simp add: leafText_def)
qed

definition paired :: "state \<Rightarrow> state \<Rightarrow> bool" where
  "paired sc sn = (tinted (buf sc) (buf sn) \<and> calls sc = calls sn \<and> heap sc = heap sn)"

lemma paired_start [simp]: "paired (startState M) (startState M)"
  by (simp add: paired_def tinted.empty)

lemma paired_combine: "paired a b \<Longrightarrow> paired c d \<Longrightarrow> paired (combine a c) (combine b d)"
  by (simp add: paired_def tinted_append)

lemma twins_rewritten:
  "twins hc hn \<Longrightarrow> rewritten hc g a = rewritten hn g a"
  "twins hc hn \<Longrightarrow> rewriteCalls hc g a = rewriteCalls hn g a"
  by (simp_all add: twins_def rewritten_def rewriteCalls_def)

lemma appendAttrs_paired_from:
  assumes "\<And>a p g M. rel_option paired (appendAttr n E hc (startState M) a p g)
                                        (appendAttr n E hn (startState M) a p g)"
  shows "rel_option paired (appendAttrs n E hc (startState M) as p g)
                           (appendAttrs n E hn (startState M) as p g)"
proof (induction as arbitrary: M)
  case Nil
  show ?case by simp
next
  case (Cons a as)
  show ?case
  proof (cases "appendAttr n E hc (startState M) a p g")
    case None
    then show ?thesis
      using assms [of M a p g] by (simp add: appendAttrs_Cons_start del: appendAttrs.simps)
  next
    case (Some tc)
    with assms [of M a p g] obtain tn where
      tn: "appendAttr n E hn (startState M) a p g = Some tn" "paired tc tn"
      by (auto elim: option.rel_cases)
    then have h: "heap tn = heap tc"
      by (simp add: paired_def)
    show ?thesis
      using Cons [of "heap tc"] tn(2)
      by (auto simp add: appendAttrs_Cons_start Some tn(1) h option.rel_map paired_combine
          simp del: appendAttrs.simps elim!: option.rel_cases)
  qed
qed

lemma appendAttr_paired:
  assumes "twins hc hn"
  shows "rel_option paired (appendAttr n E hc (startState M) a p g)
                           (appendAttr n E hn (startState M) a p g)"
proof (induction n arbitrary: a p g M)
  case 0
  show ?case by simp
next
  case (Suc n)
  note rw = twins_rewritten [OF assms]
  have l: "paired \<lparr>buf = leafText E hc k v, calls = cs, heap = M\<rparr>
                  \<lparr>buf = leafText E hn k v, calls = cs, heap = M\<rparr>" for k v cs
    by (simp add: paired_def tinted_leafText [OF assms])
  have z: "paired \<lparr>buf = [], calls = cs, heap = M'\<rparr> \<lparr>buf = [], calls = cs, heap = M'\<rparr>" for cs M'
    by (simp add: paired_def tinted.empty)
  have g: "rel_option paired (appendAttrs n E hc (startState M') as p' g')
                             (appendAttrs n E hn (startState M') as p' g')" for as p' g' M'
    by (rule appendAttrs_paired_from) (rule Suc.IH)
  have gg: "rel_option paired
              (map_option (combine \<lparr>buf = [], calls = cs, heap = M\<rparr>)
                 (appendAttrs n E hc (startState M') as p' g'))
              (map_option (combine \<lparr>buf = [], calls = cs, heap = M\<rparr>)
                 (appendAttrs n E hn (startState M') as p' g'))"
    for as p' g' cs M'
    using g [of M' as p' g'] z [of cs M]
    by (auto simp add: option.rel_map paired_combine elim!: option.rel_cases)
  show ?case
    by (simp add: appendAttr_Suc_start rw [of "elems M g" a, symmetric] l z gg)
qed

lemma appendAttrs_paired:
  assumes "twins hc hn"
  shows "rel_option paired (appendAttrs n E hc (startState M) as p g)
                           (appendAttrs n E hn (startState M) as p g)"
  by (rule appendAttrs_paired_from) (rule appendAttr_paired [OF assms])

text \<open>The state of \<open>Handle\<close> before the record's attributes are appended.\<close>

definition preamble :: "stdlib \<Rightarrow> memory \<Rightarrow> 'w handler \<Rightarrow> Record \<Rightarrow> state" where
  "preamble E M h r =
    (let s = writeMessage E h (writeSource E h (writeLevel E h
               (writeTime E h (startState M) r) r) r) r
     in s\<lparr>buf := buf s @ attrsPrefix h\<rparr>)"

lemma heap_preamble [simp]: "heap (preamble E M h r) = M"
  by (simp add: preamble_def Let_def)

lemma render_preamble:
  "render n E M h r
   = map_option (combine (preamble E M h r))
       (appendAttrs n E h (startState M) (Attrs r) (groupPrefix h) (groups h))"
proof -
  let ?s4 = "writeMessage E h (writeSource E h (writeLevel E h
               (writeTime E h \<lparr>buf = [], calls = [], heap = M\<rparr> r) r) r) r"
  have "(if length (attrsPrefix h) > 0 then ?s4\<lparr>buf := WriteString (buf ?s4) (attrsPrefix h)\<rparr>
         else ?s4) = preamble E M h r"
    by (simp add: preamble_def WriteString_def Let_def startState_def)
  then have "render n E M h r
             = appendAttrs n E h (preamble E M h r) (Attrs r) (groupPrefix h) (groups h)"
    by (simp add: render_def newBuffer_def Let_def)
  then show ?thesis
    by (subst (asm) appendAttrs_frame) simp
qed

lemma paired_write:
  assumes "paired sc sn" "tinted xc xn"
  shows "paired (sc\<lparr>buf := buf sc @ xc @ '' ''\<rparr>) (sn\<lparr>buf := buf sn @ xn @ '' ''\<rparr>)"
proof -
  have "tinted (xc @ '' '') (xn @ '' '')"
    using assms(2) by (rule tinted.byte)
  then have "tinted (buf sc @ xc @ '' '') (buf sn @ xn @ '' '')"
    using assms(1) by (simp add: paired_def tinted_append)
  then show ?thesis
    using assms(1) by (simp add: paired_def)
qed

lemma paired_called:
  "paired sc sn \<Longrightarrow> paired (sc\<lparr>calls := calls sc @ cs\<rparr>) (sn\<lparr>calls := calls sn @ cs\<rparr>)"
  by (simp add: paired_def)

lemma write_forms:
  "WriteChar (appendTime E h b t) c = b @ appendTime E h [] t @ [c]"
  "WriteChar (appendLevel h b l) c = b @ appendLevel h [] l @ [c]"
  "WriteChar (appendSource E h b src) c = b @ appendSource E h [] src @ [c]"
  "WriteChar (appendValue E h b v q) c = b @ appendValue E h [] v q @ [c]"
  "WriteChar (WriteString b m) c = b @ m @ [c]"
  by (simp_all add: WriteChar_def WriteString_def appendTime_app [of E h b]
      appendLevel_app [of h b] appendSource_app [of E h b] appendValue_app [of E h b])

lemma paired_writeTime:
  assumes "twins hc hn" "paired sc sn"
  shows "paired (writeTime E hc sc r) (writeTime E hn sn r)"
proof (cases "replaceAttr hn")
  case None
  then show ?thesis
    using assms
    by (simp add: writeTime_def twins_def write_forms paired_write tinted_time [OF assms(1)])
next
  case (Some rep)
  let ?a = "rep [] (Attr TimeKey (TimeValue (Round0 (Time r))))"
  let ?cs = "[([] :: string list, Attr TimeKey (TimeValue (Round0 (Time r))))]"
  have p: "paired (sc\<lparr>calls := calls sc @ ?cs\<rparr>) (sn\<lparr>calls := calls sn @ ?cs\<rparr>)"
    using assms(2) by (rule paired_called)
  have v: "tinted (appendValue E hc [] (Value ?a) False) (appendValue E hn [] (Value ?a) False)"
    by (rule tinted_value [OF assms(1)])
  have t: "tinted (appendTime E hc [] x) (appendTime E hn [] x)" for x
    by (rule tinted_time [OF assms(1)])
  show ?thesis
    using Some assms p paired_write [OF p v] paired_write [OF p t]
    by (cases "Value ?a")
       (simp_all add: writeTime_def twins_def callRep_def Let_def write_forms
         del: appendValue.simps)
qed

lemma paired_writeLevel:
  assumes "twins hc hn" "paired sc sn"
  shows "paired (writeLevel E hc sc r) (writeLevel E hn sn r)"
proof (cases "replaceAttr hn")
  case None
  then show ?thesis
    using assms
    by (simp add: writeLevel_def twins_def write_forms paired_write tinted_level [OF assms(1)])
next
  case (Some rep)
  let ?a = "rep [] (Attr LevelKey (AnyValue (LevelAny (Level r))))"
  let ?cs = "[([] :: string list, Attr LevelKey (AnyValue (LevelAny (Level r))))]"
  have p: "paired (sc\<lparr>calls := calls sc @ ?cs\<rparr>) (sn\<lparr>calls := calls sn @ ?cs\<rparr>)"
    using assms(2) by (rule paired_called)
  have v: "tinted (appendValue E hc [] (Value ?a) False) (appendValue E hn [] (Value ?a) False)"
    by (rule tinted_value [OF assms(1)])
  show ?thesis
    using Some assms(1) p paired_write [OF p v]
    by (simp add: writeLevel_def twins_def callRep_def Let_def write_forms del: appendValue.simps)
qed

lemma source_eta: "\<lparr>Function = Function f, File = File f, Line = Line f\<rparr> = f"
  by (cases f) simp

lemma paired_writeSource:
  assumes "twins hc hn" "paired sc sn"
  shows "paired (writeSource E hc sc r) (writeSource E hn sn r)"
proof (cases "replaceAttr hn")
  case None
  then show ?thesis
    using assms
    by (simp add: writeSource_def twins_def write_forms paired_write tinted_source [OF assms(1)]
        Let_def source_eta)
next
  case (Some rep)
  let ?src = "callersFrame E (PC r)"
  let ?a = "rep [] (Attr SourceKey (AnyValue (SourceAny ?src)))"
  let ?cs = "[([] :: string list, Attr SourceKey (AnyValue (SourceAny ?src)))]"
  have p: "paired (sc\<lparr>calls := calls sc @ ?cs\<rparr>) (sn\<lparr>calls := calls sn @ ?cs\<rparr>)"
    using assms(2) by (rule paired_called)
  have v: "tinted (appendValue E hc [] (Value ?a) False) (appendValue E hn [] (Value ?a) False)"
    by (rule tinted_value [OF assms(1)])
  show ?thesis
    using Some assms p paired_write [OF p v]
    by (simp add: writeSource_def twins_def callRep_def Let_def write_forms source_eta
        del: appendValue.simps)
qed

lemma paired_writeMessage:
  assumes "twins hc hn" "paired sc sn"
  shows "paired (writeMessage E hc sc r) (writeMessage E hn sn r)"
proof (cases "replaceAttr hn")
  case None
  then show ?thesis
    using assms
    by (simp add: writeMessage_def twins_def write_forms paired_write tinted_refl)
next
  case (Some rep)
  let ?a = "rep [] (Attr MessageKey (StringValue (Message r)))"
  let ?cs = "[([] :: string list, Attr MessageKey (StringValue (Message r)))]"
  have p: "paired (sc\<lparr>calls := calls sc @ ?cs\<rparr>) (sn\<lparr>calls := calls sn @ ?cs\<rparr>)"
    using assms(2) by (rule paired_called)
  have v: "tinted (appendValue E hc [] (Value ?a) False) (appendValue E hn [] (Value ?a) False)"
    by (rule tinted_value [OF assms(1)])
  show ?thesis
    using Some assms(1) p paired_write [OF p v]
    by (simp add: writeMessage_def twins_def callRep_def Let_def write_forms del: appendValue.simps)
qed

lemma paired_preamble:
  assumes "twins hc hn"
  shows "paired (preamble E M hc r) (preamble E M hn r)"
proof -
  let ?c = "writeMessage E hc (writeSource E hc (writeLevel E hc
               (writeTime E hc (startState M) r) r) r) r"
  let ?n = "writeMessage E hn (writeSource E hn (writeLevel E hn
               (writeTime E hn (startState M) r) r) r) r"
  have "paired (startState M) (startState M)"
    by simp
  then have "paired ?c ?n"
    by (intro paired_writeMessage paired_writeSource paired_writeLevel paired_writeTime assms)
  then show ?thesis
    using assms by (simp add: preamble_def paired_def twins_def tinted_append Let_def)
qed

lemma render_paired:
  assumes "twins hc hn"
  shows "rel_option paired (render n E M hc r) (render n E M hn r)"
  using appendAttrs_paired [OF assms, of n E M "Attrs r" "groupPrefix hc" "groups hc"]
    paired_preamble [OF assms, of E M r] assms
  by (auto simp add: render_preamble option.rel_map paired_combine twins_def
      elim!: option.rel_cases)

lemma tinted_Nil:
  assumes "tinted [] n"
  shows "n = []"
  using assms by (cases rule: tinted.cases) (auto dest: last_mode)

text \<open>Handlers built the same way, but for the color flag, are twins.\<close>

lemma twins_NewHandler:
  "twins (NewHandler wc (Some (opts\<lparr>NoColor := False\<rparr>))) (NewHandler wn (Some (opts\<lparr>NoColor := True\<rparr>)))"
  by (simp add: twins_def NewHandler_def Let_def tinted.empty)

lemma twins_WithGroup:
  "twins hc hn \<Longrightarrow>
   fst (WithGroup E M hc name) = fst (WithGroup E M hn name)
   \<and> twins (snd (WithGroup E M hc name)) (snd (WithGroup E M hn name))"
  by (simp add: twins_def WithGroup_def Let_def split: prod.splits)

lemma twins_WithAttrs:
  assumes "twins hc hn" "WithAttrs n E M hc as = Some (M', hc')"
  shows "\<exists>hn'. WithAttrs n E M hn as = Some (M', hn') \<and> twins hc' hn'"
proof (cases "as = []")
  case True
  with assms show ?thesis by (simp add: WithAttrs_def)
next
  case False
  with assms(2) obtain sc where
    sc: "appendAttrs n E hc (startState M) as (groupPrefix hc) (groups hc) = Some sc"
    "hc' = hc\<lparr>attrsPrefix := attrsPrefix hc @ buf sc\<rparr>" "M' = heap sc"
    by (auto simp add: WithAttrs_def newBuffer_def startState_def split: option.splits)
  with appendAttrs_paired [OF assms(1), of n E M as "groupPrefix hc" "groups hc"] obtain sn where
    sn: "appendAttrs n E hn (startState M) as (groupPrefix hc) (groups hc) = Some sn"
    "paired sc sn"
    by (auto elim: option.rel_cases)
  have "WithAttrs n E M hn as = Some (M', hn\<lparr>attrsPrefix := attrsPrefix hn @ buf sn\<rparr>)"
    using False sn sc(3) assms(1)
    by (simp add: WithAttrs_def newBuffer_def startState_def twins_def paired_def)
  moreover have "twins hc' (hn\<lparr>attrsPrefix := attrsPrefix hn @ buf sn\<rparr>)"
    using assms(1) sn(2) sc(2) by (simp add: twins_def paired_def tinted_append)
  ultimately show ?thesis by blast
qed

definition boldRecord :: Record where
  "boldRecord = \<lparr>Time = someTime, Message = ESC # ''[1mbold'', Level = LevelInfo, PC = 0,
                 Attrs = []\<rparr>"

definition colorHandler :: "string handler" where
  "colorHandler = plainHandler\<lparr>noColor := False\<rparr>"

lemma colorHandler_simps:
  "replaceAttr colorHandler = None" "\<not> noColor colorHandler" "attrsPrefix colorHandler = []"
  "groupPrefix colorHandler = []" "groups colorHandler = nilSlice" "\<not> addSource colorHandler"
  "w colorHandler = sampleWriter" "timeFormat colorHandler = timeFormat plainHandler"
  by (simp_all add: colorHandler_def plainHandler_simps)

lemma twins_sample: "twins colorHandler plainHandler"
  by (simp add: twins_def colorHandler_simps plainHandler_simps tinted.empty)

lemma lineText_color_sample:
  "lineText sampleLib colorHandler \<lparr>Time = t, Message = m, Level = LevelInfo, PC = pc, Attrs = as\<rparr>
   = ansiFaint @ ''12:00:00.000'' @ ansiReset @ '' '' @ ansiBrightGreen @ ''INF'' @ ansiReset
     @ '' '' @ m @ [CHR 0x0A]"
  by (simp add: lineText_def appendTime_text appendLevel_levelText colorHandler_simps
      levelText_Info sampleLib_def levelColor_def sint_Info)

lemma stripANSI_text: "ESC \<notin> set x \<Longrightarrow> stripANSI (x @ rest) = x @ stripANSI rest"
  by (induction x) (auto simp add: stripANSI_plain)

text \<open>
  A message that itself contains a mode sequence is written as it is: the line without
  color keeps the sequence, while deleting every sequence from the colored line removes
  it too.
\<close>

theorem C8_counterexample:
  "map_option written (Handle 1 sampleLib [] plainHandler [] boldRecord)
     = Some (Some (''12:00:00.000 INF '' @ ESC # ''[1mbold'' @ [CHR 0x0A]))
   \<and> map_option (map_option stripANSI \<circ> written) (Handle 1 sampleLib [] colorHandler [] boldRecord)
     = Some (Some (''12:00:00.000 INF bold'' @ [CHR 0x0A]))
   \<and> map_option written (Handle 1 sampleLib [] plainHandler [] boldRecord)
     \<noteq> map_option (map_option stripANSI \<circ> written) (Handle 1 sampleLib [] colorHandler [] boldRecord)"
proof -
  have nz: "\<not> IsZero someTime"
    by (simp add: IsZero_def someTime_def)
  have p: "map_option written (Handle 1 sampleLib [] plainHandler [] boldRecord)
     = Some (Some (''12:00:00.000 INF '' @ ESC # ''[1mbold'' @ [CHR 0x0A]))"
    using nz by (simp add: Handle_plain_line plainHandler_simps boldRecord_def lineText_sample)
  have s: "stripANSI (ansiFaint @ ''12:00:00.000'' @ ansiReset @ '' '' @ ansiBrightGreen @ ''INF''
             @ ansiReset @ '' '' @ (ESC # ''[1mbold'') @ [CHR 0x0A])
           = ''12:00:00.000 INF bold'' @ [CHR 0x0A]"
  proof -
    have m: "ansiFaint \<in> modes" "ansiReset \<in> modes" "ansiBrightGreen \<in> modes"
      by (simp_all add: modes_def)
    have e: "ESC \<notin> set ''12:00:00.000''" "ESC \<notin> set '' ''" "ESC \<notin> set ''INF''"
      "ESC \<notin> set (''bold'' @ [CHR 0x0A])"
      by (simp_all add: ESC_def)
    have b: "stripANSI ((ESC # ''[1mbold'') @ [CHR 0x0A]) = ''bold'' @ [CHR 0x0A]"
      using stripANSI_text [OF e(4), of "[]"] by (simp add: stripANSI.simps(2))
    show ?thesis
      by (simp only: stripANSI_mode [OF m(1)] stripANSI_mode [OF m(2)] stripANSI_mode [OF m(3)]
          stripANSI_text [OF e(1)] stripANSI_text [OF e(2)] stripANSI_text [OF e(3)] b) simp
  qed
  have c: "map_option (map_option stripANSI \<circ> written) (Handle 1 sampleLib [] colorHandler [] boldRecord)
     = Some (Some (''12:00:00.000 INF bold'' @ [CHR 0x0A]))"
    using nz s
    by (simp add: Handle_plain_line colorHandler_simps boldRecord_def lineText_color_sample)
  have ne: "''12:00:00.000 INF '' @ ESC # ''[1mbold'' @ [CHR 0x0A] \<noteq> ''12:00:00.000 INF bold'' @ [CHR 0x0A]"
    by (simp add: ESC_def)
  show ?thesis
    unfolding p c using ne by simp
qed

subsection \<open>Escape bytes from outside the handler\<close>

lemma digit_hex: "n < 16 \<Longrightarrow> digit n \<in> set ''0123456789abcdef''"
  by (auto simp add: digit_def eval_nat_numeral less_Suc_eq)

lemma ESC_hexdigits: "ESC \<notin> set (hexdigits n r)"
proof -
  have "ESC \<notin> set ''0123456789abcdef''"
    by (simp add: ESC_def)
  moreover have "set (hexdigits n r) \<subseteq> set ''0123456789abcdef''"
    using digit_hex by (auto simp add: hexdigits_def simp del: set_simps list.set)
  ultimately show ?thesis by blast
qed

lemma ESC_char_of: "(char_of (n :: nat) = ESC) = (n mod 256 = 27)"
proof -
  have "(char_of n = ESC) = ((of_char (char_of n) :: nat) = of_char ESC)"
    by (simp only: of_char_eq_iff_nat)
  also have "\<dots> = (n mod 256 = 27)"
    by (simp add: ESC_def)
  finally show ?thesis .
qed

lemma high_byte: "128 \<le> n \<Longrightarrow> n < 256 \<Longrightarrow> char_of (n :: nat) \<noteq> ESC"
  by (simp add: ESC_char_of)

lemma ESC_EncodeRune: "r \<noteq> 27 \<Longrightarrow> ESC \<notin> set (EncodeRune r)"
proof -
  assume r: "r \<noteq> 27"
  have c: "char_of (128 + k mod 64 :: nat) \<noteq> ESC" for k :: nat
  proof (rule high_byte)
    show "128 \<le> 128 + k mod 64" by simp
    have "k mod 64 < 64" by simp
    then show "128 + k mod 64 < 256" by linarith
  qed
  consider "r \<le> 0x7F" | "0x7F < r" "r \<le> 0x7FF"
    | "0x7FF < r" "r > MaxRune \<or> (0xD800 \<le> r \<and> r \<le> 0xDFFF)"
    | "0x7FF < r" "\<not> (r > MaxRune \<or> (0xD800 \<le> r \<and> r \<le> 0xDFFF))" "r \<le> 0xFFFF"
    | "0xFFFF < r" "r \<le> MaxRune"
    by linarith
  then show ?thesis
  proof cases
    case 1
    then have "r mod 256 = r" by simp
    then have "char_of r \<noteq> ESC" using r by (simp add: ESC_char_of)
    with 1 show ?thesis by (auto simp add: EncodeRune_def)
  next
    case 2
    then have "r div 64 \<le> 31" by simp
    then have "char_of (192 + r div 64) \<noteq> ESC"
      by (intro high_byte) simp_all
    with 2 c [of r] show ?thesis by (auto simp add: EncodeRune_def)
  next
    case 3
    have k: "char_of (239 :: nat) \<noteq> ESC" "char_of (191 :: nat) \<noteq> ESC"
      "char_of (189 :: nat) \<noteq> ESC"
      by (simp_all add: ESC_char_of)
    from 3 show ?thesis
      using k k [symmetric] by (auto simp add: EncodeRune_def RuneError_def)
  next
    case 4
    then have "r div 4096 \<le> 15" by simp
    then have "char_of (224 + r div 4096) \<noteq> ESC"
      by (intro high_byte) simp_all
    with 4 c [of r] c [of "r div 64"] show ?thesis by (auto simp add: EncodeRune_def)
  next
    case 5
    then have "r div 262144 \<le> 4" by (simp add: MaxRune_def)
    then have "char_of (240 + r div 262144) \<noteq> ESC"
      by (intro high_byte) simp_all
    with 5 c [of r] c [of "r div 64"] c [of "r div 4096"] show ?thesis
      by (auto simp add: EncodeRune_def MaxRune_def)
  qed
qed

lemma ESC_escapedRune: "ESC \<notin> set (escapedRune tbl r)"
proof -
  have p: "IsPrint tbl r \<Longrightarrow> r \<noteq> 27"
    by (auto simp add: IsPrint_def)
  have q: "char_of (34 :: nat) \<noteq> ESC" "char_of (92 :: nat) \<noteq> ESC"
    by (simp_all add: ESC_char_of)
  have e: "CHR 0x5C \<noteq> ESC" "CHR ''a'' \<noteq> ESC" "CHR ''b'' \<noteq> ESC" "CHR ''f'' \<noteq> ESC"
    "CHR ''n'' \<noteq> ESC" "CHR ''r'' \<noteq> ESC" "CHR ''t'' \<noteq> ESC" "CHR ''v'' \<noteq> ESC"
    "CHR ''x'' \<noteq> ESC" "CHR ''u'' \<noteq> ESC" "CHR ''U'' \<noteq> ESC"
    by (simp_all add: ESC_def)
  show ?thesis
    using p q e ESC_EncodeRune [of r] ESC_hexdigits
    by (simp add: escapedRune_def)
qed

lemma ESC_quoteLoop: "ESC \<notin> set (quoteLoop tbl s)"
proof (induction tbl s rule: quoteLoop.induct)
  case (1 tbl s)
  have e: "CHR 0x5C \<noteq> ESC" "CHR ''x'' \<noteq> ESC"
    by (simp_all add: ESC_def)
  show ?case
  proof (cases "s = []")
    case True
    then show ?thesis by (simp add: quoteLoop.simps)
  next
    case False
    obtain r width where rw: "(if of_char (hd s) \<ge> RuneSelf then DecodeRune s
                         else ((of_char (hd s) :: nat), 1 :: nat)) = (r, width)"
      by (cases "if of_char (hd s) \<ge> RuneSelf then DecodeRune s
                         else ((of_char (hd s) :: nat), 1 :: nat)")
    show ?thesis
    proof (cases "width = 1 \<and> r = RuneError")
      case True
      then have "ESC \<notin> set (quoteLoop tbl (drop 1 s))"
        using 1(1) [OF False rw [symmetric] refl] by simp
      then show ?thesis
        using False rw True e ESC_hexdigits by (subst quoteLoop.simps) simp
    next
      case no: False
      then have "ESC \<notin> set (quoteLoop tbl (drop width s))"
        using 1(2) [OF False rw [symmetric] refl] by simp
      then show ?thesis
        using False rw no ESC_escapedRune by (subst quoteLoop.simps) auto
    qed
  qed
qed

lemma unquoted_no_ESC: "\<not> needsQuoting tbl s \<Longrightarrow> ESC \<notin> set s"
  using runeLoop_finds_ascii [of ESC s tbl]
  by (auto simp add: needsQuoting_def plainByte_def ESC_def split: if_splits)

lemma ESC_appendString_quoted: "ESC \<notin> set (appendString tbl [] s True)"
  using ESC_quoteLoop [of tbl s] unquoted_no_ESC [of tbl s]
  by (auto simp add: appendString_def AppendQuote_def WriteString_def ESC_def)

lemma ESC_appendString: "q \<or> ESC \<notin> set s \<Longrightarrow> ESC \<notin> set (appendString tbl [] s q)"
  using ESC_appendString_quoted [of tbl s]
  by (cases q) (auto simp add: appendString_def WriteString_def)

lemma ESC_digits10: "ESC \<notin> set (digits10 n)"
proof -
  have "ESC \<notin> set ''0123456789''" by (simp add: ESC_def)
  then show ?thesis using digits10_chars [of n] by blast
qed

lemma ESC_numbers:
  "ESC \<notin> set (AppendInt [] i)" "ESC \<notin> set (AppendUint [] n)" "ESC \<notin> set (AppendBool [] v)"
  "ESC \<notin> set (Itoa i)"
  using ESC_digits10 by (simp_all add: AppendInt_def AppendUint_def AppendBool_def Itoa_def ESC_def)

text \<open>
  Escape bytes that come from outside the handler. A value is free of them, for the place
  where it is written (\<open>q\<close> tells whether strings are quoted there), when no text in it
  that is written as it is contains an escape byte: a string or the text of an opaque
  value where nothing is quoted, and the file name of a source value everywhere. Quoted
  text never contains one, whatever the string.
\<close>

function (sequential) escapeFree :: "bool \<Rightarrow> val \<Rightarrow> bool" where
  "escapeFree q (StringValue s) = (q \<or> ESC \<notin> set s)"
| "escapeFree q (AnyValue (SourceAny src)) = (ESC \<notin> set (File src))"
| "escapeFree q (AnyValue (Other x)) =
     (q \<or> (case MarshalText x of
             Some (Inr data) \<Rightarrow> ESC \<notin> set data
           | Some (Inl e) \<Rightarrow> True
           | None \<Rightarrow> ESC \<notin> set (Sprintf x)))"
| "escapeFree q (GroupValue as) = (q \<longrightarrow> (\<forall>a\<in>set as. escapeFree q (Value a)))"
| "escapeFree q (LogValuerValue ty v) = (q \<longrightarrow> escapeFree q v)"
| "escapeFree q _ = True"
  by pat_completeness auto
termination
proof (relation "measure (\<lambda>(q, v). size v)")
  fix q :: bool and as :: "Attr list" and x :: Attr
  assume "x \<in> set as"
  then have "size x < size (GroupValue as)"
    by (induction as) auto
  moreover have "size (Value x) < size x"
    by (cases x) simp
  ultimately show "((q, Value x), (q, GroupValue as)) \<in> measure (\<lambda>(q, v). size v)"
    by simp
qed simp_all

text \<open>The library functions put no escape byte into their results.\<close>

definition escapeFreeLib :: "stdlib \<Rightarrow> bool" where
  "escapeFreeLib E =
    ((\<forall>t layout. ESC \<notin> set layout \<longrightarrow> ESC \<notin> set (timeFormatted E t layout))
     \<and> (\<forall>t. ESC \<notin> set (timeString E t))
     \<and> (\<forall>d. ESC \<notin> set (durationString E d))
     \<and> (\<forall>f. ESC \<notin> set (formatFloat E f))
     \<and> (\<forall>file. ESC \<notin> set file \<longrightarrow>
            ESC \<notin> set (filepathJoin E (filepathBase E (fst (filepathSplit E file)))
                          (snd (filepathSplit E file))))
     \<and> (\<forall>pc. ESC \<notin> set (File (callersFrame E pc))))"

text \<open>The callback puts no escape byte into the attribute it returns: not into an
  attribute of the record, and not into a reserved attribute, whose value is written
  without quoting.\<close>

definition escapeFreeCallback :: "(string list \<Rightarrow> Attr \<Rightarrow> Attr) option \<Rightarrow> bool" where
  "escapeFreeCallback f =
    (case f of
       None \<Rightarrow> True
     | Some rep \<Rightarrow>
         (\<forall>g a. escapeFree True (Value a) \<longrightarrow> escapeFree True (Value (rep g a)))
         \<and> (\<forall>a. escapeFree False (Value a) \<longrightarrow> escapeFree False (Value (rep [] a))))"

text \<open>No escape byte comes from outside the handler: from the library, the callback, the
  layout of the time stamp, the inherited attributes, the message, or an attribute of the
  record.\<close>

definition escapeFreeInput :: "stdlib \<Rightarrow> 'w handler \<Rightarrow> Record \<Rightarrow> bool" where
  "escapeFreeInput E h r =
    (escapeFreeLib E \<and> escapeFreeCallback (replaceAttr h) \<and> ESC \<notin> set (timeFormat h)
     \<and> ESC \<notin> set (attrsPrefix h) \<and> ESC \<notin> set (Message r)
     \<and> (\<forall>a\<in>set (Attrs r). escapeFree True (Value a)))"

lemma ESC_appendValue:
  assumes "escapeFreeLib E" "noColor h" "escapeFree q v"
  shows "ESC \<notin> set (appendValue E h [] v q)"
proof (cases v)
  case (StringValue s)
  with assms(3) show ?thesis by (simp add: ESC_appendString)
next
  case (Float64Value f)
  with assms(1) show ?thesis by (simp add: escapeFreeLib_def)
next
  case (DurationValue d)
  with assms(1) show ?thesis by (simp add: escapeFreeLib_def ESC_appendString)
next
  case (TimeValue t)
  with assms(1) show ?thesis by (simp add: escapeFreeLib_def ESC_appendString)
next
  case (AnyValue x)
  show ?thesis
  proof (cases x)
    case NilAny
    have "ESC \<notin> set ''<nil>''" by (simp add: ESC_def)
    with AnyValue NilAny show ?thesis by (simp add: ESC_appendString)
  next
    case (LevelAny l)
    with AnyValue assms(2) show ?thesis
      by (simp add: appendLevel_levelText levelText_separators)
  next
    case (SourceAny src)
    have "CHR '':'' \<noteq> ESC" by (simp add: ESC_def)
    with AnyValue SourceAny assms show ?thesis
      by (simp add: appendSource_text escapeFreeLib_def ESC_numbers)
  next
    case (Other cv)
    with AnyValue assms(3) show ?thesis
      by (auto simp add: ESC_appendString split: option.splits sum.splits)
  qed
qed (simp_all add: ESC_numbers)

lemma ESC_leafText:
  assumes "escapeFreeLib E" "noColor h" "escapeFree True v"
  shows "ESC \<notin> set (leafText E h k v)"
proof -
  have e: "CHR ''='' \<noteq> ESC" "CHR '' '' \<noteq> ESC"
    by (simp_all add: ESC_def)
  show ?thesis
  proof (cases "asError v")
    case None
    have "appendValue E h (appendKey E h [] k []) v True
          = appendKey E h [] k [] @ appendValue E h [] v True"
      by (subst appendValue_app) simp
    then show ?thesis
      using None assms(2) e ESC_appendValue [OF assms] ESC_appendString_quoted
      by (simp add: leafText_def appendKey_text)
  next
    case (Some msg)
    then show ?thesis
      using assms(2) e ESC_appendString_quoted
      by (simp add: leafText_def appendError_text)
  qed
qed

lemma escapeFree_resolveLoop:
  "resolveLoop n v = Some rv \<Longrightarrow> escapeFree True v \<Longrightarrow> escapeFree True rv"
  by (induction n v rule: resolveLoop.induct) auto

lemma escapeFree_Resolve: "escapeFree True v \<Longrightarrow> escapeFree True (Resolve v)"
  using escapeFree_resolveLoop [of maxLogValues v]
  by (auto simp add: Resolve_def tooManyTimes_def Let_def split: option.splits)

lemma escapeFree_rewritten:
  assumes "escapeFreeCallback (replaceAttr h)" "escapeFree True (Value a)"
  shows "escapeFree True (Value (rewritten h G a))"
proof (cases "replaceAttr h")
  case None
  with assms(2) show ?thesis
    by (simp add: rewritten_def resolved_def escapeFree_Resolve)
next
  case (Some rep)
  have 1: "escapeFree True (Value (resolved a))"
    using assms(2) by (simp add: resolved_def escapeFree_Resolve)
  then have "escapeFree True (Value (rep G (resolved a)))"
    using assms(1) Some by (simp add: escapeFreeCallback_def)
  then have "escapeFree True (Value (resolved (rep G (resolved a))))"
    by (simp add: resolved_def escapeFree_Resolve)
  with 1 Some show ?thesis
    by (simp add: rewritten_def)
qed

lemma ESC_appendAttrs_from:
  assumes "\<And>a p g M t. appendAttr n E h (startState M) a p g = Some t \<Longrightarrow>
             escapeFree True (Value a) \<Longrightarrow> ESC \<notin> set (buf t)"
  shows "appendAttrs n E h (startState M) as p g = Some t \<Longrightarrow>
         \<forall>a\<in>set as. escapeFree True (Value a) \<Longrightarrow> ESC \<notin> set (buf t)"
proof (induction as arbitrary: M t)
  case Nil
  then show ?case by auto
next
  case (Cons a as)
  from Cons.prems(1) obtain t1 t2 where
    "appendAttr n E h (startState M) a p g = Some t1"
    "appendAttrs n E h (startState (heap t1)) as p g = Some t2" "t = combine t1 t2"
    by (rule appendAttrs_Cons_Some)
  then show ?case
    using assms [of M a p g t1] Cons.IH [of "heap t1" t2] Cons.prems(2) by simp
qed

lemma ESC_appendAttr:
  assumes "escapeFreeLib E" "noColor h" "escapeFreeCallback (replaceAttr h)"
  shows "appendAttr n E h (startState M) a p g = Some t \<Longrightarrow>
         escapeFree True (Value a) \<Longrightarrow> ESC \<notin> set (buf t)"
proof (induction n arbitrary: a p g M t)
  case 0
  then show ?case by simp
next
  case (Suc n)
  let ?a = "rewritten h (elems M g) a"
  have c: "escapeFree True (Value ?a)"
    using assms(3) Suc.prems(2) by (rule escapeFree_rewritten)
  from Suc.prems(1) show ?case
  proof (cases rule: appendAttr_Suc_Some_cases)
    case dropped
    then show ?thesis by simp
  next
    case (grouped t')
    from grouped(2) obtain as where as: "Value ?a = GroupValue as"
      by (cases "Value ?a") simp_all
    then have "\<forall>x\<in>set (children ?a). escapeFree True (Value x)"
      using c by (simp add: children_def)
    with grouped(3) have "ESC \<notin> set (buf t')"
      by (rule ESC_appendAttrs_from [rotated]) (rule Suc.IH)
    then show ?thesis using grouped(4) by simp
  next
    case leaf
    then show ?thesis using ESC_leafText [OF assms(1,2) c] by simp
  qed
qed

lemma ESC_appendAttrs:
  assumes "escapeFreeLib E" "noColor h" "escapeFreeCallback (replaceAttr h)"
    "appendAttrs n E h (startState M) as p g = Some t" "\<forall>a\<in>set as. escapeFree True (Value a)"
  shows "ESC \<notin> set (buf t)"
  using assms(4,5) by (rule ESC_appendAttrs_from [rotated]) (rule ESC_appendAttr [OF assms(1-3)])

lemma ESC_written:
  assumes "ESC \<notin> set (buf s)" "ESC \<notin> set x"
  shows "ESC \<notin> set (buf (s\<lparr>buf := buf s @ x @ '' ''\<rparr>))"
  using assms by (simp add: ESC_def)

lemma ESC_appendTime:
  assumes "escapeFreeLib E" "noColor h" "ESC \<notin> set (timeFormat h)"
  shows "ESC \<notin> set (appendTime E h [] t)"
  using assms by (simp add: appendTime_text escapeFreeLib_def)

lemma ESC_writeTime:
  assumes "escapeFreeLib E" "noColor h" "escapeFreeCallback (replaceAttr h)"
    "ESC \<notin> set (timeFormat h)" "ESC \<notin> set (buf s)"
  shows "ESC \<notin> set (buf (writeTime E h s r))"
proof (cases "replaceAttr h")
  case None
  then show ?thesis
    using assms(5) ESC_written [OF assms(5) ESC_appendTime [OF assms(1,2,4)]]
    by (simp add: writeTime_def write_forms)
next
  case (Some rep)
  let ?a = "rep [] (Attr TimeKey (TimeValue (Round0 (Time r))))"
  have c: "escapeFree False (Value ?a)"
    using assms(3) Some by (simp add: escapeFreeCallback_def)
  have v: "ESC \<notin> set (appendValue E h [] (Value ?a) False)"
    using assms(1,2) c by (rule ESC_appendValue)
  show ?thesis
    using Some assms(5) ESC_written [OF assms(5) v]
      ESC_written [OF assms(5) ESC_appendTime [OF assms(1,2,4)]]
    by (cases "Value ?a")
       (simp_all add: writeTime_def callRep_def Let_def write_forms del: appendValue.simps)
qed

lemma ESC_writeLevel:
  assumes "escapeFreeLib E" "noColor h" "escapeFreeCallback (replaceAttr h)" "ESC \<notin> set (buf s)"
  shows "ESC \<notin> set (buf (writeLevel E h s r))"
proof (cases "replaceAttr h")
  case None
  have "ESC \<notin> set (appendLevel h [] (Level r))"
    using assms(2) by (simp add: appendLevel_levelText levelText_separators)
  then show ?thesis
    using None ESC_written [OF assms(4)]
    by (simp add: writeLevel_def write_forms)
next
  case (Some rep)
  let ?a = "rep [] (Attr LevelKey (AnyValue (LevelAny (Level r))))"
  have c: "escapeFree False (Value ?a)"
    using assms(3) Some by (simp add: escapeFreeCallback_def)
  have v: "ESC \<notin> set (appendValue E h [] (Value ?a) False)"
    using assms(1,2) c by (rule ESC_appendValue)
  show ?thesis
    using Some assms(4) ESC_written [OF assms(4) v]
    by (simp add: writeLevel_def callRep_def Let_def write_forms del: appendValue.simps)
qed

lemma ESC_writeSource:
  assumes "escapeFreeLib E" "noColor h" "escapeFreeCallback (replaceAttr h)" "ESC \<notin> set (buf s)"
  shows "ESC \<notin> set (buf (writeSource E h s r))"
proof -
  let ?src = "callersFrame E (PC r)"
  have f: "escapeFree q (AnyValue (SourceAny ?src))" for q
    using assms(1) by (simp add: escapeFreeLib_def)
  show ?thesis
  proof (cases "replaceAttr h")
    case None
    have "ESC \<notin> set (appendValue E h [] (AnyValue (SourceAny ?src)) False)"
      using assms(1,2) f by (rule ESC_appendValue)
    then have "ESC \<notin> set (appendSource E h [] ?src)"
      by simp
    then show ?thesis
      using None assms(4) ESC_written [OF assms(4)]
      by (simp add: writeSource_def write_forms Let_def source_eta)
  next
    case (Some rep)
    let ?a = "rep [] (Attr SourceKey (AnyValue (SourceAny ?src)))"
    have c: "escapeFree False (Value ?a)"
      using assms(3) Some f [of False] by (simp add: escapeFreeCallback_def)
    have v: "ESC \<notin> set (appendValue E h [] (Value ?a) False)"
      using assms(1,2) c by (rule ESC_appendValue)
    show ?thesis
      using Some assms(4) ESC_written [OF assms(4) v]
      by (simp add: writeSource_def callRep_def Let_def write_forms source_eta
          del: appendValue.simps)
  qed
qed

lemma ESC_writeMessage:
  assumes "escapeFreeLib E" "noColor h" "escapeFreeCallback (replaceAttr h)"
    "ESC \<notin> set (Message r)" "ESC \<notin> set (buf s)"
  shows "ESC \<notin> set (buf (writeMessage E h s r))"
proof (cases "replaceAttr h")
  case None
  then show ?thesis
    using ESC_written [OF assms(5,4)]
    by (simp add: writeMessage_def write_forms)
next
  case (Some rep)
  let ?a = "rep [] (Attr MessageKey (StringValue (Message r)))"
  have c: "escapeFree False (Value ?a)"
    using assms(3,4) Some by (simp add: escapeFreeCallback_def)
  have v: "ESC \<notin> set (appendValue E h [] (Value ?a) False)"
    using assms(1,2) c by (rule ESC_appendValue)
  show ?thesis
    using Some assms(5) ESC_written [OF assms(5) v]
    by (simp add: writeMessage_def callRep_def Let_def write_forms del: appendValue.simps)
qed

lemma ESC_preamble:
  assumes "escapeFreeInput E h r" "noColor h"
  shows "ESC \<notin> set (buf (preamble E M h r))"
proof -
  from assms(1) have a: "escapeFreeLib E" "escapeFreeCallback (replaceAttr h)"
    "ESC \<notin> set (timeFormat h)" "ESC \<notin> set (attrsPrefix h)" "ESC \<notin> set (Message r)"
    by (simp_all add: escapeFreeInput_def)
  have "ESC \<notin> set (buf (startState M))"
    by simp
  then have "ESC \<notin> set (buf (writeTime E h (startState M) r))"
    by (rule ESC_writeTime [OF a(1) assms(2) a(2,3)])
  then have "ESC \<notin> set (buf (writeLevel E h (writeTime E h (startState M) r) r))"
    by (rule ESC_writeLevel [OF a(1) assms(2) a(2)])
  then have "ESC \<notin> set (buf (writeSource E h (writeLevel E h (writeTime E h (startState M) r) r) r))"
    by (rule ESC_writeSource [OF a(1) assms(2) a(2)])
  then have "ESC \<notin> set (buf (writeMessage E h
               (writeSource E h (writeLevel E h (writeTime E h (startState M) r) r) r) r))"
    by (rule ESC_writeMessage [OF a(1) assms(2) a(2,5)])
  with a(4) show ?thesis
    by (simp add: preamble_def Let_def)
qed

lemma ESC_render:
  assumes "escapeFreeInput E h r" "noColor h" "render n E M h r = Some s"
  shows "ESC \<notin> set (buf s)"
proof -
  from assms(1) have a: "escapeFreeLib E" "escapeFreeCallback (replaceAttr h)"
    "\<forall>a\<in>set (Attrs r). escapeFree True (Value a)"
    by (simp_all add: escapeFreeInput_def)
  from assms(3) obtain t where
    t: "appendAttrs n E h (startState M) (Attrs r) (groupPrefix h) (groups h) = Some t"
    "s = combine (preamble E M h r) t"
    by (auto simp add: render_preamble)
  have "ESC \<notin> set (buf t)"
    using a(1) assms(2) a(2) t(1) a(3) by (rule ESC_appendAttrs)
  with ESC_preamble [OF assms(1,2), of M] t(2) show ?thesis
    by simp
qed

text \<open>The inherited attributes of a handler that was built from attributes without escape
  bytes contain none.\<close>

lemma WithAttrs_escapeFree:
  assumes "escapeFreeLib E" "noColor h" "escapeFreeCallback (replaceAttr h)"
    "ESC \<notin> set (attrsPrefix h)" "\<forall>a\<in>set as. escapeFree True (Value a)"
    "WithAttrs n E M h as = Some (M', h')"
  shows "ESC \<notin> set (attrsPrefix h')"
proof (cases "as = []")
  case True
  with assms(4,6) show ?thesis by (simp add: WithAttrs_def)
next
  case False
  with assms(6) obtain t where
    t: "appendAttrs n E h (startState M) as (groupPrefix h) (groups h) = Some t"
    "h' = h\<lparr>attrsPrefix := attrsPrefix h @ buf t\<rparr>"
    by (auto simp add: WithAttrs_def newBuffer_def startState_def split: option.splits)
  have "ESC \<notin> set (buf t)"
    using assms(1,2,3) t(1) assms(5) by (rule ESC_appendAttrs)
  with assms(4) t(2) show ?thesis by simp
qed

lemma escapeFreeInput_sample: "escapeFreeInput sampleLib plainHandler startRecord"
proof -
  have "escapeFreeLib sampleLib"
    by (simp add: escapeFreeLib_def sampleLib_def ESC_def)
  moreover have "ESC \<notin> set (timeFormat plainHandler)"
    by (simp add: plainHandler_def NewHandler_def defaultTimeFormat_def ESC_def)
  moreover have "ESC \<notin> set (Message startRecord)"
    by (simp add: startRecord_def ESC_def)
  ultimately show ?thesis
    by (simp add: escapeFreeInput_def escapeFreeCallback_def plainHandler_simps startRecord_def)
qed

text \<open>
  Claim C8, amended. Take two handlers that differ in the color flag only (the inherited
  attribute prefix of the colored one being that of the plain one with modes inserted and,
  as on every handler that was built, empty or ending with the separator). Whenever the
  colored handler returns from \<open>Handle\<close>, so does the plain one, with the same callback
  invocations and the same memory; nothing is written by both, or the colored line is the
  plain line with modes inserted. When no escape byte comes from outside the handler (from
  the message, the layout of the time stamp, the inherited attributes, the file name of a
  source, a text that is written without quoting, the library or the callback), the plain
  line contains no escape byte at all, and it is the colored line with every mode sequence
  deleted.
\<close>

theorem C8_color_adds_only_modes:
  assumes "twins hc hn" and "spaced (attrsPrefix hc)" and "Handle n E M hc outc r = Some rc"
  shows "\<exists>rn. Handle n E M hn outn r = Some rn \<and> invoked rn = invoked rc \<and> store rn = store rc
           \<and> (case written rc of
                 None \<Rightarrow> written rn = None
               | Some lc \<Rightarrow>
                   (\<exists>ln. written rn = Some ln \<and> tinted lc ln
                         \<and> (ESC \<notin> set ln \<longrightarrow> stripANSI lc = ln)
                         \<and> (escapeFreeInput E hn r \<longrightarrow> ESC \<notin> set ln \<and> stripANSI lc = ln)))"
proof -
  from assms(3) obtain sc where sc: "render n E M hc r = Some sc"
    by (auto simp add: Handle_eq split: option.splits)
  with render_paired [OF assms(1), of n E M r] obtain sn where
    sn: "render n E M hn r = Some sn" and p: "paired sc sn"
    by (auto elim: option.rel_cases)
  have sp: "spaced (buf sc)"
    using assms(2) sc by (rule render_spaced)
  from p have t: "tinted (buf sc) (buf sn)" and c: "calls sc = calls sn" "heap sc = heap sn"
    by (simp_all add: paired_def)
  have nc: "noColor hn"
    using assms(1) by (simp add: twins_def)
  show ?thesis
  proof (cases "buf sc = []")
    case True
    then have "buf sn = []" using t tinted_Nil by simp
    with True sc sn c assms(3) show ?thesis
      by (auto simp add: Handle_eq)
  next
    case False
    then have l: "last (buf sc) = CHR '' ''" using sp by (simp add: spaced_def)
    from tinted_replace_last [OF t False l, of "CHR 0x0A"]
    have ne: "buf sn \<noteq> []"
      and tl: "tinted (butlast (buf sc) @ [CHR 0x0A]) (butlast (buf sn) @ [CHR 0x0A])"
      by simp_all
    have s: "ESC \<notin> set (butlast (buf sn) @ [CHR 0x0A])
          \<longrightarrow> stripANSI (butlast (buf sc) @ [CHR 0x0A]) = butlast (buf sn) @ [CHR 0x0A]"
      using stripANSI_tinted [OF tl, of "[]"] by simp
    have "escapeFreeInput E hn r \<longrightarrow> ESC \<notin> set (butlast (buf sn) @ [CHR 0x0A])"
    proof
      assume "escapeFreeInput E hn r"
      then have "ESC \<notin> set (buf sn)"
        using nc sn by (rule ESC_render)
      then have "ESC \<notin> set (butlast (buf sn))"
        by (auto dest: in_set_butlastD)
      then show "ESC \<notin> set (butlast (buf sn) @ [CHR 0x0A])"
        by (simp add: ESC_def)
    qed
    with s False ne tl sc sn c assms(3) show ?thesis
      by (auto simp add: Handle_eq)
  qed
qed

theorem C8_color_adds_only_modes_witness:
  "twins colorHandler plainHandler \<and> spaced (attrsPrefix colorHandler)
   \<and> Handle 1 sampleLib [] colorHandler [] startRecord
     = Some \<lparr>sink = lineText sampleLib colorHandler startRecord, err = None,
             written = Some (lineText sampleLib colorHandler startRecord), invoked = [],
             store = []\<rparr>
   \<and> Handle 1 sampleLib [] plainHandler [] startRecord
     = Some \<lparr>sink = ''12:00:00.000 INF Starting server'' @ [CHR 0x0A], err = None,
             written = Some (''12:00:00.000 INF Starting server'' @ [CHR 0x0A]), invoked = [],
             store = []\<rparr>
   \<and> escapeFreeInput sampleLib plainHandler startRecord
   \<and> ESC \<notin> set (''12:00:00.000 INF Starting server'' @ [CHR 0x0A])
   \<and> stripANSI (lineText sampleLib colorHandler startRecord)
     = ''12:00:00.000 INF Starting server'' @ [CHR 0x0A]"
proof -
  let ?rc = "\<lparr>sink = lineText sampleLib colorHandler startRecord, err = None,
             written = Some (lineText sampleLib colorHandler startRecord), invoked = [],
             store = []\<rparr>"
  let ?ln = "''12:00:00.000 INF Starting server'' @ [CHR 0x0A]"
  have nz: "\<not> IsZero (Time startRecord)" "Attrs startRecord = []"
    by (simp_all add: IsZero_def someTime_def startRecord_def)
  have hc: "Handle 1 sampleLib [] colorHandler [] startRecord = Some ?rc"
    using nz by (simp add: Handle_plain_line colorHandler_simps sampleWriter_def)
  have hn: "Handle 1 sampleLib [] plainHandler [] startRecord
     = Some \<lparr>sink = ?ln, err = None, written = Some ?ln, invoked = [], store = []\<rparr>"
    using nz by (simp add: Handle_plain_line plainHandler_simps sampleWriter_def)
       (simp add: startRecord_def lineText_sample)
  have sp: "spaced (attrsPrefix colorHandler)"
    by (simp add: colorHandler_simps)
  from C8_color_adds_only_modes [OF twins_sample sp hc, of "[]"] hn escapeFreeInput_sample
  have "ESC \<notin> set ?ln \<and> stripANSI (lineText sampleLib colorHandler startRecord) = ?ln"
    by auto
  with twins_sample sp hc hn escapeFreeInput_sample show ?thesis by blast
qed

section \<open>Reading a quoted string back\<close>











































end
